theory Spec2Isabelle
  imports Complex_Main "HOL-Library.Log_Nat" "HOL-Library.Multiset"
begin

section \<open>Data model of \<open>src/components/Map.tsx\<close>\<close>

text \<open>
  JavaScript strings are modelled as \<^typ>\<open>string\<close>, holding the UTF-8 bytes of the text.
  The only character test of the program is the regular expression \<open>/[0-9]/g\<close>; the ASCII
  digits are single bytes in UTF-8 and no byte of a longer sequence is one of them, so digit
  stripping and the emptiness test agree with the source's UTF-16 strings.

  The \<open>year\<close> of a person is the result of \<open>Date.prototype.getFullYear\<close>: an integer or
  \<open>NaN\<close>. Integers of that size are exact as IEEE doubles, so the subtraction of the sort
  comparator is exact as well.
\<close>

datatype jsnum = NaN | Num int

fun js_sub :: "jsnum \<Rightarrow> jsnum \<Rightarrow> jsnum" where
  "js_sub (Num a) (Num b) = Num (a - b)"
| "js_sub _ _ = NaN"

text \<open>The strict equality \<open>===\<close> on numbers: \<open>NaN\<close> equals nothing, not even itself.\<close>

fun js_strict_eq :: "jsnum \<Rightarrow> jsnum \<Rightarrow> bool" where
  "js_strict_eq (Num a) (Num b) = (a = b)"
| "js_strict_eq _ _ = False"

text \<open>The comparison \<open>a <= b\<close> on numbers; every comparison with \<open>NaN\<close> is false.\<close>

fun js_le :: "jsnum \<Rightarrow> jsnum \<Rightarrow> bool" where
  "js_le (Num a) (Num b) = (a \<le> b)"
| "js_le _ _ = False"

fun js_gt :: "jsnum \<Rightarrow> jsnum \<Rightarrow> bool" where
  "js_gt (Num a) (Num b) = (a > b)"
| "js_gt _ _ = False"

text \<open>
  \<open>interface Person\<close>. The field \<open>device\<close> is declared a string, but it is read from a row
  cell that may be absent, so it can hold \<open>undefined\<close> (\<open>None\<close>).
\<close>

record Person =
  city :: string
  year :: jsnum
  name :: string
  device :: "string option"

text \<open>
  A row of \<open>utils.sheet_to_json\<close>: a \<open>Record<string, string>\<close>, a partial map from the
  column label to the cell's text. The labels, in UTF-8.
\<close>

type_synonym row = "string \<rightharpoonup> string"

definition col_Bydliste :: string where
  "col_Bydliste = ''Bydli'' @ [CHR 0xC5, CHR 0xA1, CHR ''t'', CHR 0xC4, CHR 0x9B]"

definition col_Datum_prodeje :: string where
  "col_Datum_prodeje = ''Datum prodeje''"

definition col_Jmeno :: string where
  "col_Jmeno = ''Jm'' @ [CHR 0xC3, CHR 0xA9] @ ''no''"

definition col_Prijmeni :: string where
  "col_Prijmeni = ''P'' @ [CHR 0xC5, CHR 0x99] @ ''ijmen'' @ [CHR 0xC3, CHR 0xAD]"

definition col_Typ :: string where
  "col_Typ = ''Typ''"

section \<open>The runtime's date functions\<close>

text \<open>
  \<open>Date.parse\<close> and \<open>getFullYear\<close> belong to the JavaScript runtime: which strings parse
  is implementation-defined beyond the ISO format, and the calendar year is taken in the
  local time zone. Both are parameters of the model: \<open>Date_parse\<close> maps a string to a time
  value or \<open>NaN\<close>, \<open>YearFromTime\<close> maps a time value to its local calendar year.
\<close>

record js_date =
  Date_parse :: "string \<Rightarrow> jsnum"
  YearFromTime :: "int \<Rightarrow> int"

text \<open>\<open>ToString\<close> of a cell that may be \<open>undefined\<close>, as \<open>Date.parse\<close> applies it to its argument.\<close>

definition ToString_cell :: "string option \<Rightarrow> string" where
  "ToString_cell v = (case v of None \<Rightarrow> ''undefined'' | Some s \<Rightarrow> s)"

text \<open>\<open>new Date(t).getFullYear()\<close>: \<open>NaN\<close> for an invalid date.\<close>

definition getFullYear :: "js_date \<Rightarrow> jsnum \<Rightarrow> jsnum" where
  "getFullYear rt t = (case t of NaN \<Rightarrow> NaN | Num ms \<Rightarrow> Num (YearFromTime rt ms))"

section \<open>Extraction of the rows: \<open>foundPeople\<close>\<close>

text \<open>\<open>!!row["Bydliste"]\<close>: the cell is present and not the empty string.\<close>

definition truthy_cell :: "string option \<Rightarrow> bool" where
  "truthy_cell v = (case v of None \<Rightarrow> False | Some s \<Rightarrow> s \<noteq> [])"

definition is_digit :: "char \<Rightarrow> bool" where
  "is_digit c = (c \<in> set ''0123456789'')"

text \<open>\<open>s.replace(/[0-9]/g, "")\<close>\<close>

definition strip_digits :: "string \<Rightarrow> string" where
  "strip_digits s = filter (\<lambda>c. \<not> is_digit c) s"

text \<open>\<open>v ?? ""\<close>\<close>

definition nullish_empty :: "string option \<Rightarrow> string" where
  "nullish_empty v = (case v of None \<Rightarrow> [] | Some s \<Rightarrow> s)"

text \<open>
  The body of the \<open>.map\<close> callback. It runs only on rows that passed the filter, where the
  city cell is present; on an absent cell the source would throw, which the filter excludes,
  and the model reads the cell through \<open>nullish_empty\<close> there.
\<close>

definition row_to_person :: "js_date \<Rightarrow> row \<Rightarrow> Person" where
  "row_to_person rt r =
     \<lparr> city = strip_digits (nullish_empty (r col_Bydliste)),
       year = getFullYear rt (Date_parse rt (ToString_cell (r col_Datum_prodeje))),
       name = nullish_empty (r col_Jmeno) @ '' '' @ nullish_empty (r col_Prijmeni),
       device = r col_Typ \<rparr>"

definition foundPeople :: "js_date \<Rightarrow> row list \<Rightarrow> Person list" where
  "foundPeople rt rows =
     map (row_to_person rt) (filter (\<lambda>r. truthy_cell (r col_Bydliste)) rows)"

section \<open>Geocoding one person: \<open>addRandomOffset\<close> and \<open>fetchCityLocation\<close>\<close>

text \<open>
  Coordinates are IEEE doubles. \<open>addRandomOffset\<close> takes their arithmetic as a parameter:
  the three operations and the two constants it uses. It is read below with the rounded
  arithmetic of the doubles (\<open>double_ops\<close>) and with exact arithmetic (\<open>exact_ops\<close>).
\<close>

record 'n float_ops =
  fadd :: "'n \<Rightarrow> 'n \<Rightarrow> 'n"
  fsub :: "'n \<Rightarrow> 'n \<Rightarrow> 'n"
  fmul :: "'n \<Rightarrow> 'n \<Rightarrow> 'n"
  c_0_5 :: 'n
  c_0_005 :: 'n

record 'n Location =
  lat :: 'n
  lng :: 'n

text \<open>\<open>interface PersonWithLocation extends Person\<close>; the optional property is an option.\<close>

record 'n PersonWithLocation = Person +
  location :: "'n Location option"

text \<open>The two draws of \<open>Math.random()\<close> are the arguments \<open>r1\<close> and \<open>r2\<close>.\<close>

definition addRandomOffset :: "'n float_ops \<Rightarrow> 'n \<Rightarrow> 'n \<Rightarrow> 'n Location \<Rightarrow> 'n Location" where
  "addRandomOffset fo r1 r2 loc =
     (let offsetLat = fmul fo (fsub fo r1 (c_0_5 fo)) (c_0_005 fo);
          offsetLng = fmul fo (fsub fo r2 (c_0_5 fo)) (c_0_005 fo)
      in \<lparr> lat = fadd fo (lat loc) offsetLat, lng = fadd fo (lng loc) offsetLng \<rparr>)"

text \<open>
  Binary64. A finite double is a real number; an operation returns the exact result rounded
  to the nearest double, ties to even: 53 significant bits, and the fixed spacing
  \<open>2^-1074\<close> below \<open>2^-1022\<close> (subnormals). \<open>exponent2 x\<close> is the integer \<open>e\<close> with
  \<open>2^e \<le> |x| < 2^(e+1)\<close>. Overflow to infinity, \<open>NaN\<close> and the sign of zero are not
  modelled: the sum and the product of \<open>addRandomOffset\<close> cannot overflow on a finite
  coordinate. The literals \<open>0.5\<close> and \<open>0.005\<close> of the source denote the nearest doubles.
\<close>

definition exponent2 :: "real \<Rightarrow> int" where
  "exponent2 x =
     (if 1 \<le> \<bar>x\<bar> then bitlen \<lfloor>\<bar>x\<bar>\<rfloor> - 1 else - bitlen (\<lceil>1 / \<bar>x\<bar>\<rceil> - 1))"

definition round_half_even :: "real \<Rightarrow> int" where
  "round_half_even y =
     (let n = \<lfloor>y\<rfloor>; d = y - of_int n
      in if d < 1 / 2 then n else if 1 / 2 < d then n + 1 else if even n then n else n + 1)"

definition binary64 :: "real \<Rightarrow> real" where
  "binary64 x =
     (if x = 0 then 0
      else (let q = 2 powi (max (exponent2 x) (- 1022) - 52)
            in of_int (round_half_even (x / q)) * q))"

definition double_ops :: "real float_ops" where
  "double_ops =
     \<lparr> fadd = (\<lambda>a b. binary64 (a + b)), fsub = (\<lambda>a b. binary64 (a - b)),
       fmul = (\<lambda>a b. binary64 (a * b)), c_0_5 = binary64 0.5, c_0_005 = binary64 0.005 \<rparr>"

definition exact_ops :: "real float_ops" where
  "exact_ops = \<lparr> fadd = (+), fsub = (-), fmul = (*), c_0_5 = 0.5, c_0_005 = 0.005 \<rparr>"

text \<open>\<open>const kyjovLocation = { lat: 49.01018, lng: 17.12253 }\<close>\<close>

definition kyjovLocation :: "real Location" where
  "kyjovLocation = \<lparr> lat = binary64 49.01018, lng = binary64 17.12253 \<rparr>"

text \<open>
  The JSON body of the geocoding service, typed as its interface describes it: \<open>features\<close>
  is absent or an array of features, and \<open>geometry.coordinates\<close> of a feature is the pair
  \<open>[longitude, latitude]\<close> (\<open>coordinates[0]\<close> first, \<open>coordinates[1]\<close> second).
\<close>

record 'n Feature =
  coordinates :: "'n \<times> 'n"

record 'n PhotonData =
  features :: "'n Feature list option"

datatype error = LookupFailure

text \<open>
  The state of the component that the pipeline reads and writes (\<open>useState\<close> cells). Every
  write to \<open>processedPeople\<close> after its reset is a functional update \<open>state + 1\<close>, so its
  value does not depend on the order in which the lookups complete.
\<close>

record 'n AppState =
  people :: "'n PersonWithLocation list"
  isLoading :: bool
  totalPeople :: nat
  processedPeople :: nat

definition with_location :: "Person \<Rightarrow> 'n Location option \<Rightarrow> 'n PersonWithLocation" where
  "with_location person l =
     \<lparr> city = city person, year = year person, name = name person, device = device person,
       location = l \<rparr>"

definition person_of :: "'n PersonWithLocation \<Rightarrow> Person" where
  "person_of p = \<lparr> city = city p, year = year p, name = name p, device = device p \<rparr>"

text \<open>
  \<open>fetchCityLocation\<close>. The argument \<open>reply\<close> is what \<open>await fetch(...)\<close> followed by
  \<open>await response.json()\<close> gives: a rejection (network or parse error) or the parsed body.
  A rejection leaves the function before line 80, so the counter is not touched.
\<close>

definition fetchCityLocation ::
  "'n float_ops \<Rightarrow> Person \<Rightarrow> error + 'n PhotonData \<Rightarrow> 'n \<times> 'n \<Rightarrow> 'n AppState
     \<Rightarrow> (error + 'n PersonWithLocation) \<times> 'n AppState" where
  "fetchCityLocation fo person reply rnd st =
     (case reply of
        Inl e \<Rightarrow> (Inl e, st)
      | Inr data \<Rightarrow>
          (let st' = st\<lparr>processedPeople := processedPeople st + 1\<rparr>
           in case features data of
                Some (f # _) \<Rightarrow>
                  (Inr (with_location person
                          (Some (addRandomOffset fo (fst rnd) (snd rnd)
                                   \<lparr> lat = snd (coordinates f), lng = fst (coordinates f) \<rparr>))),
                   st')
              | _ \<Rightarrow> (Inr (with_location person None), st')))"

section \<open>The orchestration: \<open>processFile\<close>\<close>

text \<open>
  The callback of \<open>foundPeople.map(async (person) => ...)\<close>. The elements of the array
  \<open>assignedPeople\<close> are options, \<open>None\<close> standing for \<open>null\<close>, so that the later filter
  \<open>element !== null\<close> can be written; the callback never returns \<open>null\<close>.
\<close>

definition assign_callback ::
  "'n float_ops \<Rightarrow> Person \<Rightarrow> error + 'n PhotonData \<Rightarrow> 'n \<times> 'n \<Rightarrow> 'n AppState
     \<Rightarrow> (error + 'n PersonWithLocation option) \<times> 'n AppState" where
  "assign_callback fo person reply rnd st =
     (case fetchCityLocation fo person reply rnd st of
        (Inl e, st') \<Rightarrow> (Inl e, st')
      | (Inr personWithLocation, st') \<Rightarrow>
          (Inr (Some personWithLocation), st'\<lparr>processedPeople := processedPeople st' + 1\<rparr>))"

text \<open>
  \<open>Promise.all\<close> over the callbacks. The lookup of the person at index \<open>i\<close> receives the
  reply \<open>net i\<close> and the random draws \<open>rnd i\<close>. Every callback runs to its end whatever the
  others do (a rejection cancels nothing); the result is the array of all results, or the
  rejection when some callback rejected. The state returned is the one reached when every
  lookup has settled.
\<close>

fun Promise_all ::
  "'n float_ops \<Rightarrow> (nat \<Rightarrow> error + 'n PhotonData) \<Rightarrow> (nat \<Rightarrow> 'n \<times> 'n) \<Rightarrow> nat \<Rightarrow> Person list
     \<Rightarrow> 'n AppState \<Rightarrow> (error + 'n PersonWithLocation option list) \<times> 'n AppState" where
  "Promise_all fo net rnd i [] st = (Inr [], st)"
| "Promise_all fo net rnd i (person # rest) st =
     (case assign_callback fo person (net i) (rnd i) st of
        (r, st1) \<Rightarrow>
          (case Promise_all fo net rnd (Suc i) rest st1 of
             (rs, st2) \<Rightarrow>
               ((case r of
                   Inl e \<Rightarrow> Inl e
                 | Inr x \<Rightarrow> (case rs of Inl e \<Rightarrow> Inl e | Inr xs \<Rightarrow> Inr (x # xs))),
                st2)))"

text \<open>
  \<open>Array.prototype.sort\<close> with a comparator. ECMAScript converts the comparator's result
  with \<open>ToNumber\<close>, reads \<open>NaN\<close> as \<open>+0\<close>, and requires a stable sort. When no year is
  \<open>NaN\<close> the comparator \<open>(a, b) => a.year - b.year\<close> is consistent and every conforming
  engine returns the same list, the stable ascending one; \<open>js_sort\<close> returns it as well.
  When a year is \<open>NaN\<close> the comparator is not consistent and ECMAScript leaves the order
  to the engine. \<open>js_sort\<close> is then one engine among others, a linear insertion sort: each
  element in turn is moved left past the elements \<open>y\<close> with \<open>comparefn(y, x) > 0\<close> (the
  sorted prefix is kept reversed in \<open>insert_left\<close>). An engine that inserts by binary
  search after detecting a run, as V8 does, can order such a list differently. For lists
  with a \<open>NaN\<close> year the theorems below therefore state only what holds for every
  order, that the stored list is a permutation; the one exception is the list of the
  years 2022, \<open>NaN\<close>, 2021, which the insertion sort and V8's sort both leave as it is.
\<close>

fun js_positive :: "jsnum \<Rightarrow> bool" where
  "js_positive (Num v) = (v > 0)"
| "js_positive NaN = False"

fun insert_left :: "('a \<Rightarrow> 'a \<Rightarrow> jsnum) \<Rightarrow> 'a \<Rightarrow> 'a list \<Rightarrow> 'a list" where
  "insert_left comparefn x [] = [x]"
| "insert_left comparefn x (y # ys) =
     (if js_positive (comparefn y x) then y # insert_left comparefn x ys else x # y # ys)"

definition js_sort :: "('a \<Rightarrow> 'a \<Rightarrow> jsnum) \<Rightarrow> 'a list \<Rightarrow> 'a list" where
  "js_sort comparefn xs = rev (foldl (\<lambda>acc x. insert_left comparefn x acc) [] xs)"

text \<open>The comparator \<open>(a, b) => a.year - b.year\<close>.\<close>

definition by_year :: "('a Person_scheme) \<Rightarrow> ('a Person_scheme) \<Rightarrow> jsnum" where
  "by_year a b = js_sub (year a) (year b)"

definition filteredAndSortedPeople ::
  "'n PersonWithLocation option list \<Rightarrow> 'n PersonWithLocation list" where
  "filteredAndSortedPeople assignedPeople =
     js_sort by_year (map the (filter (\<lambda>element. element \<noteq> None) assignedPeople))"

text \<open>
  \<open>processFile\<close>, from the rows of the first sheet on (reading the file and the sheet is
  the spreadsheet library's work). \<open>file\<close> is \<open>None\<close> for \<open>file === null\<close>. When
  \<open>Promise.all\<close> rejects, the \<open>catch\<close> block only logs.
\<close>

definition processFile ::
  "'n float_ops \<Rightarrow> js_date \<Rightarrow> (nat \<Rightarrow> error + 'n PhotonData) \<Rightarrow> (nat \<Rightarrow> 'n \<times> 'n)
     \<Rightarrow> row list option \<Rightarrow> 'n AppState \<Rightarrow> 'n AppState" where
  "processFile fo rt net rnd file st =
     (let st1 = st\<lparr>isLoading := True\<rparr>
      in case file of
           None \<Rightarrow> st1
         | Some rows \<Rightarrow>
             (let found = foundPeople rt rows;
                  st2 = st1\<lparr>totalPeople := length found, processedPeople := 0\<rparr>;
                  (res, st3) = Promise_all fo net rnd 0 found st2;
                  st4 = (case res of
                           Inr assignedPeople \<Rightarrow>
                             st3\<lparr>people := filteredAndSortedPeople assignedPeople\<rparr>
                         | Inl e \<Rightarrow> st3)
              in st4\<lparr>isLoading := False\<rparr>))"

section \<open>Colours and the year filter\<close>

definition tailwindColorNames :: "string list" where
  "tailwindColorNames =
     [''border-gray-500'', ''border-red-500'', ''border-yellow-500'', ''border-blue-500'',
      ''border-indigo-500'', ''border-purple-500'', ''border-pink-500'', ''border-amber-500'',
      ''border-lime-500'', ''border-emerald-500'', ''border-teal-500'', ''border-cyan-500'',
      ''border-sky-500'', ''border-violet-500'', ''border-fuchsia-500'', ''border-rose-500'',
      ''border-slate-500'', ''border-zinc-500'', ''border-neutral-500'', ''border-stone-500'']"

text \<open>
  The key of \<open>colorMap[item.year]\<close> is \<open>String(item.year)\<close>: \<open>"NaN"\<close>, or the decimal digits
  of the integer with a leading minus sign when it is negative. (\<open>String\<close> writes an
  integer in plain digits below \<open>10^21\<close>; the years of a \<open>Date\<close> stay below 300000 in
  absolute value.)
\<close>

definition digit_char :: "nat \<Rightarrow> char" where
  "digit_char d = ''0123456789'' ! d"

fun decimal :: "nat \<Rightarrow> string" where
  "decimal n = (if n < 10 then [digit_char n] else decimal (n div 10) @ [digit_char (n mod 10)])"

definition Number_toString :: "jsnum \<Rightarrow> string" where
  "Number_toString v =
     (case v of
        NaN \<Rightarrow> ''NaN''
      | Num i \<Rightarrow> (if i < 0 then CHR ''-'' # decimal (nat (- i)) else decimal (nat i)))"

text \<open>
  The body of \<open>people.forEach\<close>: \<open>!colorMap[item.year]\<close> holds when the key is unbound or
  bound to the empty string.
\<close>

definition color_step ::
  "(string \<rightharpoonup> string) \<times> nat \<Rightarrow> 'a Person_scheme \<Rightarrow> (string \<rightharpoonup> string) \<times> nat" where
  "color_step s item =
     (case s of (colorMap, colorIndex) \<Rightarrow>
        (if (case colorMap (Number_toString (year item)) of None \<Rightarrow> True | Some v \<Rightarrow> v = [])
         then (colorMap(Number_toString (year item) \<mapsto>
                          tailwindColorNames ! (colorIndex mod length tailwindColorNames)),
               colorIndex + 1)
         else (colorMap, colorIndex)))"

definition colorMap :: "'a Person_scheme list \<Rightarrow> (string \<rightharpoonup> string)" where
  "colorMap ps = fst (foldl color_step (Map.empty, 0) ps)"

text \<open>\<open>colorMap[person.year]\<close>, as the list and the markers read it.\<close>

definition color_of :: "'a Person_scheme list \<Rightarrow> 'a Person_scheme \<Rightarrow> string option" where
  "color_of ps person = colorMap ps (Number_toString (year person))"

text \<open>
  \<open>filteredPeople\<close>. \<open>Number(filteredYear)\<close> is the runtime's conversion, a parameter here;
  \<open>filteredYear\<close> is the value of the selector: \<open>""\<close> or a key of \<open>colorMap\<close>.
\<close>

definition filteredPeople ::
  "(string \<Rightarrow> jsnum) \<Rightarrow> 'a Person_scheme list \<Rightarrow> string \<Rightarrow> 'a Person_scheme list" where
  "filteredPeople Number ps filteredYear =
     (if filteredYear = [] then ps
      else filter (\<lambda>person. js_strict_eq (year person) (Number filteredYear)) ps)"

section \<open>Auxiliary definitions for the proofs\<close>

text \<open>
  The value of a decimal digit and of a digit string (the inverse of \<open>decimal\<close>), the
  invariant of the colour loop (\<open>ks\<close> lists the keys bound so far, in binding order), and
  the order of the reversed prefix during the sort.
\<close>

definition digit_value :: "char \<Rightarrow> nat" where
  "digit_value c = length (takeWhile (\<lambda>d. d \<noteq> c) ''0123456789'')"

definition undecimal :: "string \<Rightarrow> nat" where
  "undecimal s = foldl (\<lambda>a c. 10 * a + digit_value c) 0 s"

definition color_inv :: "(string \<rightharpoonup> string) \<times> nat \<Rightarrow> string list \<Rightarrow> bool" where
  "color_inv s ks =
     (distinct ks \<and> length ks = snd s \<and> dom (fst s) = set ks
      \<and> (\<forall>i<length ks. fst s (ks ! i) = Some (tailwindColorNames ! (i mod length tailwindColorNames))))"

definition descending :: "('a Person_scheme) list \<Rightarrow> bool" where
  "descending acc = sorted_wrt (\<lambda>a b. js_le (year b) (year a)) acc"

section \<open>Example inputs\<close>

text \<open>
  A runtime whose \<open>Date.parse\<close> knows two ISO dates (time values in UTC) and whose year is
  the mean Gregorian year count; rows of
  a sheet; replies of the geocoding service; the draws of \<open>Math.random()\<close>.
\<close>

definition example_dates :: js_date where
  "example_dates =
     \<lparr> Date_parse = (\<lambda>s. if s = ''2021-05-01'' then Num 1619827200000
                          else if s = ''2022-03-15'' then Num 1647302400000
                          else NaN),
       YearFromTime = (\<lambda>ms. 1970 + ms div 31556952000) \<rparr>"

definition row_Kyjov :: row where
  "row_Kyjov = [col_Bydliste \<mapsto> ''Kyjov 123'', col_Datum_prodeje \<mapsto> ''2021-05-01'',
                col_Jmeno \<mapsto> ''Jan'', col_Prijmeni \<mapsto> ''Novak'', col_Typ \<mapsto> ''TV'']"

definition row_Brno :: row where
  "row_Brno = [col_Bydliste \<mapsto> ''Brno'', col_Datum_prodeje \<mapsto> ''2022-03-15'',
               col_Jmeno \<mapsto> ''Eva'', col_Typ \<mapsto> ''Radio'']"

definition row_no_date :: row where
  "row_no_date = [col_Bydliste \<mapsto> ''Praha 4'', col_Datum_prodeje \<mapsto> ''loni'']"

definition row_digits :: row where
  "row_digits = [col_Bydliste \<mapsto> ''123'', col_Datum_prodeje \<mapsto> ''2021-05-01'']"

definition row_no_city :: row where
  "row_no_city = [col_Datum_prodeje \<mapsto> ''2021-05-01'', col_Typ \<mapsto> ''TV'']"

definition person_Kyjov :: Person where
  "person_Kyjov = \<lparr> city = ''Kyjov '', year = Num 2021, name = ''Jan Novak'', device = Some ''TV'' \<rparr>"

definition person_Brno :: Person where
  "person_Brno = \<lparr> city = ''Brno'', year = Num 2022, name = ''Eva '', device = Some ''Radio'' \<rparr>"

definition person_no_date :: Person where
  "person_no_date = \<lparr> city = ''Praha '', year = NaN, name = '' '', device = None \<rparr>"

definition state0 :: "real AppState" where
  "state0 = \<lparr> people = [with_location person_Brno None], isLoading = False,
              totalPeople = 1, processedPeople = 2 \<rparr>"

definition reply_Kyjov :: "error + real PhotonData" where
  "reply_Kyjov = Inr \<lparr> features = Some [\<lparr> coordinates = (17.12253, 49.01018) \<rparr>] \<rparr>"

definition reply_none :: "error + real PhotonData" where
  "reply_none = Inr \<lparr> features = Some [] \<rparr>"

definition person_digits :: Person where
  "person_digits = \<lparr> city = [], year = Num 2021, name = '' '', device = None \<rparr>"

definition net_all_found :: "nat \<Rightarrow> error + real PhotonData" where
  "net_all_found i = reply_Kyjov"

definition net_no_match :: "nat \<Rightarrow> error + real PhotonData" where
  "net_no_match i = reply_none"

definition net_second_fails :: "nat \<Rightarrow> error + real PhotonData" where
  "net_second_fails i = (if i = 1 then Inl LookupFailure else reply_none)"

definition net_first_found :: "nat \<Rightarrow> error + real PhotonData" where
  "net_first_found i = (if i = 0 then reply_Kyjov else reply_none)"

definition draws :: "nat \<Rightarrow> real \<times> real" where
  "draws i = (0.25, 0.75)"

section \<open>Sorting\<close>

lemma length_insert_left: "length (insert_left c x acc) = Suc (length acc)"
  by (induction acc) auto

lemma set_insert_left: "set (insert_left c x acc) = insert x (set acc)"
  by (induction acc) auto

lemma length_foldl_insert_left:
  "length (foldl (\<lambda>acc x. insert_left c x acc) acc xs) = length acc + length xs"
  by (induction xs arbitrary: acc) (auto simp: length_insert_left)

lemma length_js_sort: "length (js_sort c xs) = length xs"
  by (simp add: js_sort_def length_foldl_insert_left)

lemma set_foldl_insert_left:
  "set (foldl (\<lambda>acc x. insert_left c x acc) acc xs) = set acc \<union> set xs"
  by (induction xs arbitrary: acc) (auto simp: set_insert_left)

lemma set_js_sort: "set (js_sort c xs) = set xs"
  by (simp add: js_sort_def set_foldl_insert_left)

lemma map_insert_left:
  assumes "\<And>a b. c' a b = c (f a) (f b)"
  shows "map f (insert_left c' x acc) = insert_left c (f x) (map f acc)"
  by (induction acc) (auto simp: assms)

lemma map_foldl_insert_left:
  assumes "\<And>a b. c' a b = c (f a) (f b)"
  shows "map f (foldl (\<lambda>acc x. insert_left c' x acc) acc xs)
         = foldl (\<lambda>acc x. insert_left c x acc) (map f acc) (map f xs)"
  by (induction xs arbitrary: acc) (auto simp: map_insert_left [where c = c, OF assms])

lemma map_js_sort:
  assumes "\<And>a b. c' a b = c (f a) (f b)"
  shows "map f (js_sort c' xs) = js_sort c (map f xs)"
proof -
  have "map f (foldl (\<lambda>acc x. insert_left c' x acc) [] xs)
        = foldl (\<lambda>acc x. insert_left c x acc) [] (map f xs)"
    using map_foldl_insert_left [where c = c and c' = c' and f = f and acc = "[]" and xs = xs, OF assms]
    by simp
  then show ?thesis
    unfolding js_sort_def by (simp only: rev_map [symmetric])
qed

lemma by_year_positive_neq: "js_positive (by_year a b) \<Longrightarrow> year a \<noteq> year b"
  by (cases "year a"; cases "year b") (auto simp: by_year_def)

lemma by_year_positive_iff:
  "year a = Num i \<Longrightarrow> year b = Num j \<Longrightarrow> js_positive (by_year a b) = (j < i)"
  by (simp add: by_year_def)

lemma filter_insert_left:
  "filter (\<lambda>p. year p = y) (rev (insert_left by_year x acc))
     = filter (\<lambda>p. year p = y) (rev acc) @ (if year x = y then [x] else [])"
proof (induction acc)
  case Nil
  then show ?case by simp
next
  case (Cons a acc)
  then show ?case using by_year_positive_neq [of a x] by auto
qed

lemma filter_foldl_insert_left:
  "filter (\<lambda>p. year p = y) (rev (foldl (\<lambda>acc x. insert_left by_year x acc) acc xs))
     = filter (\<lambda>p. year p = y) (rev acc) @ filter (\<lambda>p. year p = y) xs"
  by (induction xs arbitrary: acc) (auto simp: filter_insert_left)

lemma filter_js_sort:
  "filter (\<lambda>p. year p = y) (js_sort by_year xs) = filter (\<lambda>p. year p = y) xs"
  using filter_foldl_insert_left [of y "[]" xs] by (simp add: js_sort_def)

lemma js_le_Num: "js_le a b = (\<exists>i j. a = Num i \<and> b = Num j \<and> i \<le> j)"
  by (cases a; cases b) auto

lemma descending_insert_left:
  assumes "year x \<noteq> NaN" "\<forall>p\<in>set acc. year p \<noteq> NaN" "descending acc"
  shows "descending (insert_left by_year x acc)"
  using assms
proof (induction acc)
  case Nil
  then show ?case by (simp add: descending_def)
next
  case (Cons a acc)
  obtain i where i: "year x = Num i" using Cons.prems(1) by (cases "year x") auto
  obtain j where j: "year a = Num j" using Cons.prems(2) by (cases "year a") auto
  have all: "\<forall>p\<in>set acc. \<exists>k. year p = Num k \<and> k \<le> j"
    using Cons.prems(3) j by (auto simp: descending_def js_le_Num)
  show ?case
  proof (cases "js_positive (by_year a x)")
    case True
    then have "i < j" using i j by (simp add: by_year_positive_iff)
    moreover have "descending (insert_left by_year x acc)"
      using Cons by (simp add: descending_def)
    ultimately show ?thesis using True i j all
      by (auto simp: descending_def set_insert_left js_le_Num)
  next
    case False
    then have "j \<le> i" using i j by (simp add: by_year_positive_iff)
    then show ?thesis using False i j all Cons.prems(3)
      by (fastforce simp: descending_def js_le_Num)
  qed
qed

lemma descending_foldl:
  assumes "\<forall>p\<in>set xs. year p \<noteq> NaN" "\<forall>p\<in>set acc. year p \<noteq> NaN" "descending acc"
  shows "descending (foldl (\<lambda>acc x. insert_left by_year x acc) acc xs)"
  using assms
  by (induction xs arbitrary: acc) (auto simp: descending_insert_left set_insert_left)

lemma sorted_js_sort:
  assumes "\<forall>p\<in>set xs. year p \<noteq> NaN"
  shows "sorted_wrt (\<lambda>a b. js_le (year a) (year b)) (js_sort by_year xs)"
proof -
  have "descending (foldl (\<lambda>acc x. insert_left by_year x acc) [] xs)"
    using assms by (intro descending_foldl) (auto simp: descending_def)
  then show ?thesis
    by (simp add: js_sort_def descending_def sorted_wrt_rev)
qed

lemma mset_insert_left: "mset (insert_left c x acc) = add_mset x (mset acc)"
  by (induction acc) auto

lemma mset_foldl_insert_left:
  "mset (foldl (\<lambda>acc x. insert_left c x acc) acc xs) = mset acc + mset xs"
  by (induction xs arbitrary: acc) (auto simp: mset_insert_left)

lemma mset_js_sort: "mset (js_sort c xs) = mset xs"
  by (simp add: js_sort_def mset_foldl_insert_left)

section \<open>The lookups and the run\<close>

lemma person_of_with_location: "person_of (with_location p l) = p"
  by (simp add: person_of_def with_location_def)

lemma year_with_location: "year (with_location p l) = year p"
  by (simp add: with_location_def)

lemma assign_callback_rejected:
  "assign_callback fo p (Inl e) rnd st = (Inl e, st)"
  by (simp add: assign_callback_def fetchCityLocation_def)

lemma assign_callback_fulfilled:
  "\<exists>l. assign_callback fo p (Inr d) rnd st
        = (Inr (Some (with_location p l)), st\<lparr>processedPeople := processedPeople st + 2\<rparr>)"
  by (auto simp: assign_callback_def fetchCityLocation_def Let_def
           split: option.splits list.splits)

lemma error_is_LookupFailure: "(e::error) = LookupFailure"
  by (cases e) simp

lemma Promise_all_frame:
  "people (snd (Promise_all fo net rnd i ps st)) = people st
   \<and> totalPeople (snd (Promise_all fo net rnd i ps st)) = totalPeople st
   \<and> isLoading (snd (Promise_all fo net rnd i ps st)) = isLoading st"
proof (induction ps arbitrary: i st)
  case Nil
  then show ?case by simp
next
  case (Cons p ps)
  show ?case
  proof (cases "net i")
    case (Inl e)
    then show ?thesis
      using Cons [of "Suc i" st]
      by (cases "Promise_all fo net rnd (Suc i) ps st") (simp add: assign_callback_rejected)
  next
    case (Inr d)
    obtain l where l: "assign_callback fo p (Inr d) (rnd i) st
        = (Inr (Some (with_location p l)), st\<lparr>processedPeople := processedPeople st + 2\<rparr>)"
      using assign_callback_fulfilled by blast
    show ?thesis
      using Cons [of "Suc i" "st\<lparr>processedPeople := processedPeople st + 2\<rparr>"] Inr l
      by (cases "Promise_all fo net rnd (Suc i) ps (st\<lparr>processedPeople := processedPeople st + 2\<rparr>)")
         simp
  qed
qed

lemma Promise_all_rejects:
  assumes "k < length ps" "net (i + k) = Inl e"
  shows "fst (Promise_all fo net rnd i ps st) = Inl LookupFailure"
  using assms
proof (induction ps arbitrary: i k st)
  case Nil
  then show ?case by simp
next
  case (Cons p ps)
  show ?case
  proof (cases k)
    case 0
    then have "net i = Inl e" using Cons.prems by simp
    then show ?thesis
      by (simp add: assign_callback_rejected error_is_LookupFailure [of e] split: prod.splits)
  next
    case (Suc k')
    then have rest: "\<And>st'. fst (Promise_all fo net rnd (Suc i) ps st') = Inl LookupFailure"
      using Cons.IH [of k' "Suc i"] Cons.prems by simp
    show ?thesis
    proof (cases "assign_callback fo p (net i) (rnd i) st")
      case (Pair r st1)
      then show ?thesis
        using rest [of st1]
        by (cases "Promise_all fo net rnd (Suc i) ps st1")
           (auto split: sum.splits simp: error_is_LookupFailure)
    qed
  qed
qed

lemma Promise_all_fulfilled:
  assumes "\<forall>k<length ps. \<exists>d. net (i + k) = Inr d"
  shows "\<exists>assigned.
           Promise_all fo net rnd i ps st
             = (Inr assigned, st\<lparr>processedPeople := processedPeople st + 2 * length ps\<rparr>)
           \<and> None \<notin> set assigned
           \<and> map (\<lambda>x. person_of (the x)) assigned = ps"
  using assms
proof (induction ps arbitrary: i st)
  case Nil
  then show ?case by simp
next
  case (Cons p ps)
  from Cons.prems obtain d where d: "net i = Inr d" by force
  obtain l where l: "assign_callback fo p (Inr d) (rnd i) st
        = (Inr (Some (with_location p l)), st\<lparr>processedPeople := processedPeople st + 2\<rparr>)"
    using assign_callback_fulfilled by blast
  have "\<forall>k<length ps. \<exists>d. net (Suc i + k) = Inr d"
    using Cons.prems by force
  from Cons.IH [OF this, of "st\<lparr>processedPeople := processedPeople st + 2\<rparr>"]
  obtain assigned where a:
    "Promise_all fo net rnd (Suc i) ps (st\<lparr>processedPeople := processedPeople st + 2\<rparr>)
       = (Inr assigned, st\<lparr>processedPeople := processedPeople st + 2 + 2 * length ps\<rparr>)"
    "None \<notin> set assigned" "map (\<lambda>x. person_of (the x)) assigned = ps"
    by auto
  show ?case
    using d l a by (simp add: person_of_with_location)
qed

lemma filteredAndSortedPeople_total:
  assumes "None \<notin> set assigned"
  shows "filteredAndSortedPeople assigned = js_sort by_year (map the assigned)"
proof -
  have "\<forall>element\<in>set assigned. element \<noteq> None"
    using assms by metis
  then have "filter (\<lambda>element. element \<noteq> None) assigned = assigned"
    by (rule filter_True)
  then show ?thesis by (simp add: filteredAndSortedPeople_def)
qed

lemma by_year_person_of: "by_year a b = by_year (person_of a) (person_of b)"
  by (simp add: by_year_def person_of_def)

lemma processFile_fulfilled:
  assumes "\<forall>i<length (foundPeople rt rows). \<exists>d. net i = Inr d"
  shows "\<exists>assigned.
           fst (Promise_all fo net rnd 0 (foundPeople rt rows)
                  (st\<lparr>isLoading := True, totalPeople := length (foundPeople rt rows), processedPeople := 0\<rparr>))
             = Inr assigned
           \<and> None \<notin> set assigned
           \<and> map (\<lambda>x. person_of (the x)) assigned = foundPeople rt rows
           \<and> processFile fo rt net rnd (Some rows) st
              = st\<lparr> isLoading := False, totalPeople := length (foundPeople rt rows),
                     processedPeople := 2 * length (foundPeople rt rows),
                     people := js_sort by_year (map the assigned) \<rparr>"
proof -
  let ?st2 = "st\<lparr>isLoading := True, totalPeople := length (foundPeople rt rows), processedPeople := 0\<rparr>"
  from assms have "\<forall>k<length (foundPeople rt rows). \<exists>d. net (0 + k) = Inr d" by simp
  from Promise_all_fulfilled [OF this, of fo rnd ?st2]
  obtain assigned where a:
    "Promise_all fo net rnd 0 (foundPeople rt rows) ?st2
       = (Inr assigned, ?st2\<lparr>processedPeople := processedPeople ?st2 + 2 * length (foundPeople rt rows)\<rparr>)"
    "None \<notin> set assigned" "map (\<lambda>x. person_of (the x)) assigned = foundPeople rt rows"
    by blast
  have "processFile fo rt net rnd (Some rows) st
              = st\<lparr> isLoading := False, totalPeople := length (foundPeople rt rows),
                     processedPeople := 2 * length (foundPeople rt rows),
                     people := js_sort by_year (map the assigned) \<rparr>"
    using a(1) filteredAndSortedPeople_total [OF a(2)]
    by (simp add: processFile_def Let_def)
  then show ?thesis using a by auto
qed

lemma processFile_rejected:
  assumes "i < length (foundPeople rt rows)" "net i = Inl e"
  shows "people (processFile fo rt net rnd (Some rows) st) = people st"
proof -
  let ?st2 = "st\<lparr>isLoading := True, totalPeople := length (foundPeople rt rows), processedPeople := 0\<rparr>"
  have r: "fst (Promise_all fo net rnd 0 (foundPeople rt rows) ?st2) = Inl LookupFailure"
    using Promise_all_rejects [of i "foundPeople rt rows" net 0 e fo rnd ?st2] assms by simp
  have f: "people (snd (Promise_all fo net rnd 0 (foundPeople rt rows) ?st2)) = people ?st2"
    using Promise_all_frame by blast
  show ?thesis
    using r f
    by (cases "Promise_all fo net rnd 0 (foundPeople rt rows) ?st2")
       (simp add: processFile_def Let_def)
qed

lemma year_person_of: "year (person_of p) = year p"
  by (simp add: person_of_def)

lemma js_sort_person_of:
  "map person_of (js_sort by_year xs) = js_sort by_year (map person_of xs)"
  by (rule map_js_sort) (rule by_year_person_of)

lemma processedPeople_fulfilled:
  assumes "\<forall>i<length (foundPeople rt rows). \<exists>d. net i = Inr d"
  shows "totalPeople (processFile fo rt net rnd (Some rows) st) = length (foundPeople rt rows)
         \<and> processedPeople (processFile fo rt net rnd (Some rows) st)
             = 2 * totalPeople (processFile fo rt net rnd (Some rows) st)"
  using processFile_fulfilled [OF assms, of fo rnd st] by auto

section \<open>Rounding to binary64\<close>

lemma bitlen_numeral_eval:
  "bitlen 1 = 1"
  "bitlen (numeral (Num.Bit0 n)) = bitlen (numeral n) + 1"
  "bitlen (numeral (Num.Bit1 n)) = bitlen (numeral n) + 1"
proof -
  show "bitlen 1 = 1" by (subst compute_bitlen) simp
  show "bitlen (numeral (Num.Bit0 n)) = bitlen (numeral n) + 1"
    by (subst compute_bitlen) simp
  show "bitlen (numeral (Num.Bit1 n)) = bitlen (numeral n) + 1"
    by (subst compute_bitlen) simp
qed

lemmas binary64_eval = binary64_def exponent2_def bitlen_numeral_eval round_half_even_def Let_def

lemma power_int_nonneg_eq: "0 \<le> e \<Longrightarrow> (2::real) powi e = 2 ^ nat e"
  by (simp add: power_int_def)

lemma power_int_neg_eq: "0 \<le> m \<Longrightarrow> (2::real) powi (- m) = 1 / 2 ^ nat m"
  by (simp add: power_int_def field_simps)

lemma exponent2_bounds:
  assumes "x \<noteq> 0"
  shows "2 powi exponent2 x \<le> \<bar>x\<bar> \<and> \<bar>x\<bar> < 2 powi (exponent2 x + 1)"
proof (cases "1 \<le> \<bar>x\<bar>")
  case True
  define n where "n = \<lfloor>\<bar>x\<bar>\<rfloor>"
  have n: "0 < n" using True by (simp add: n_def)
  have e: "exponent2 x = bitlen n - 1" using True by (simp add: exponent2_def n_def)
  have b1: "1 \<le> bitlen n" using n bitlen_eq_zero_iff [of n] bitlen_nonneg [of n] by linarith
  from bitlen_bounds [OF n] have lo: "2 ^ nat (bitlen n - 1) \<le> n" and hi: "n < 2 ^ nat (bitlen n)"
    by simp_all
  have "(2::real) powi (bitlen n - 1) = of_int (2 ^ nat (bitlen n - 1))"
    using b1 by (simp add: power_int_nonneg_eq)
  also have "\<dots> \<le> of_int n" using lo by (simp only: of_int_le_iff)
  also have "\<dots> \<le> \<bar>x\<bar>" by (simp add: n_def)
  finally have lower: "2 powi exponent2 x \<le> \<bar>x\<bar>" by (simp only: e)
  have "n + 1 \<le> 2 ^ nat (bitlen n)" using hi by simp
  then have "of_int (n + 1) \<le> (of_int (2 ^ nat (bitlen n)) :: real)" by (simp only: of_int_le_iff)
  moreover have "\<bar>x\<bar> < of_int (n + 1)" by (simp add: n_def)
  moreover have "(2::real) powi (bitlen n - 1 + 1) = of_int (2 ^ nat (bitlen n))"
    using b1 by (simp add: power_int_nonneg_eq)
  ultimately have upper: "\<bar>x\<bar> < 2 powi (exponent2 x + 1)" by (simp only: e)
  from lower upper show ?thesis ..
next
  case False
  define y where "y = 1 / \<bar>x\<bar>"
  define n where "n = \<lceil>y\<rceil>"
  define m where "m = bitlen (n - 1)"
  have xpos: "0 < \<bar>x\<bar>" using assms by simp
  have y1: "1 < y" using False xpos by (simp add: y_def)
  have n2: "2 \<le> n" using y1 by (simp add: n_def le_ceiling_iff)
  then have n1: "0 < n - 1" by simp
  have e: "exponent2 x = - m" using False by (simp add: exponent2_def m_def n_def y_def)
  have m1: "1 \<le> m"
    using n1 bitlen_eq_zero_iff [of "n - 1"] bitlen_nonneg [of "n - 1"] unfolding m_def by linarith
  from bitlen_bounds [OF n1] have lo: "2 ^ nat (m - 1) \<le> n - 1" and hi: "n - 1 < 2 ^ nat m"
    by (simp_all add: m_def)
  have "n \<le> 2 ^ nat m" using hi by simp
  then have "of_int n \<le> (of_int (2 ^ nat m) :: real)" by (simp only: of_int_le_iff)
  then have "of_int n \<le> (2 ^ nat m :: real)" by simp
  moreover have "y \<le> of_int n" by (simp add: n_def)
  ultimately have "y \<le> 2 ^ nat m" by (rule order_trans [rotated])
  then have "1 / 2 ^ nat m \<le> \<bar>x\<bar>"
    using xpos by (simp add: y_def field_simps)
  then have lower: "2 powi exponent2 x \<le> \<bar>x\<bar>"
    using m1 by (simp add: e power_int_neg_eq)
  have below: "of_int (n - 1) < y" unfolding n_def by linarith
  have "(of_int (2 ^ nat (m - 1)) :: real) \<le> of_int (n - 1)"
    using lo by (simp only: of_int_le_iff)
  then have "(2 ^ nat (m - 1) :: real) \<le> of_int (n - 1)" by simp
  with below have "2 ^ nat (m - 1) < y" by linarith
  then have "\<bar>x\<bar> < 1 / 2 ^ nat (m - 1)"
    using xpos by (simp add: y_def field_simps)
  moreover have "(2::real) powi (- m + 1) = 1 / 2 ^ nat (m - 1)"
    using m1 power_int_neg_eq [of "m - 1"] by simp
  ultimately have upper: "\<bar>x\<bar> < 2 powi (exponent2 x + 1)" by (simp add: e)
  from lower upper show ?thesis ..
qed

lemma round_half_even_error: "\<bar>of_int (round_half_even y) - y\<bar> \<le> 1 / 2"
proof -
  have "of_int \<lfloor>y\<rfloor> \<le> y" "y < of_int \<lfloor>y\<rfloor> + 1" by linarith+
  then show ?thesis by (auto simp: round_half_even_def Let_def)
qed

lemma binary64_error: "\<bar>binary64 x - x\<bar> \<le> \<bar>x\<bar> / 2 ^ 53 + 1 / 2 ^ 1075"
proof (cases "x = 0")
  case True
  then show ?thesis by (simp add: binary64_def)
next
  case False
  define e where "e = max (exponent2 x) (- 1022)"
  define q :: real where "q = 2 powi (e - 52)"
  have qpos: "0 < q" by (simp add: q_def)
  have b: "binary64 x = of_int (round_half_even (x / q)) * q"
    using False by (simp add: binary64_def Let_def q_def e_def)
  have "binary64 x - x = (of_int (round_half_even (x / q)) - x / q) * q"
    using qpos by (simp add: b field_simps)
  then have "\<bar>binary64 x - x\<bar> = \<bar>of_int (round_half_even (x / q)) - x / q\<bar> * q"
    using qpos by (simp add: abs_mult)
  also have "\<dots> \<le> 1 / 2 * q"
    using round_half_even_error [of "x / q"] qpos by (intro mult_right_mono) simp_all
  finally have half: "\<bar>binary64 x - x\<bar> \<le> q / 2" by simp
  have q2: "q / 2 = 2 powi e / 2 ^ 53"
  proof -
    have "(2::real) powi (e - 52) = 2 powi e / 2 powi 52"
      by (simp add: power_int_diff)
    then show ?thesis by (simp add: q_def)
  qed
  show ?thesis
  proof (cases "- 1022 \<le> exponent2 x")
    case True
    then have "e = exponent2 x" by (simp add: e_def)
    then have "2 powi e \<le> \<bar>x\<bar>" using exponent2_bounds [OF False] by simp
    then have "q / 2 \<le> \<bar>x\<bar> / 2 ^ 53" by (simp add: q2 divide_right_mono)
    then show ?thesis using half by simp
  next
    case False
    then have "e = - 1022" by (simp add: e_def)
    then have "q / 2 = 1 / 2 ^ 1075" by (simp add: q2 power_int_def field_simps)
    then have "\<bar>binary64 x - x\<bar> \<le> 1 / 2 ^ 1075" using half by (simp only:)
    moreover have "0 \<le> \<bar>x\<bar> / 2 ^ 53" by simp
    ultimately show ?thesis by linarith
  qed
qed

lemma binary64_error_loose: "\<bar>binary64 x - x\<bar> \<le> \<bar>x\<bar> / 2 ^ 53 + 1 / 2 ^ 70"
proof -
  have "(1::real) / 2 ^ 1075 \<le> 1 / 2 ^ 70"
    by (intro divide_left_mono power_increasing) simp_all
  then show ?thesis using binary64_error [of x] by linarith
qed

lemma binary64_abs_le:
  assumes "\<bar>x\<bar> \<le> b"
  shows "\<bar>binary64 x\<bar> \<le> b + b / 2 ^ 53 + 1 / 2 ^ 70"
proof -
  have "\<bar>x\<bar> / 2 ^ 53 \<le> b / 2 ^ 53" using assms by (simp add: divide_right_mono)
  then show ?thesis using binary64_error_loose [of x] assms by linarith
qed

lemma binary64_half: "binary64 (1 / 2) = 1 / 2"
  by (simp add: binary64_eval)

lemma binary64_0_005: "binary64 (1 / 200) = 5764607523034235 / 1152921504606846976"
  by (simp add: binary64_eval)

lemma double_offset_bound:
  assumes "0 \<le> r" and "r < 1"
  shows "\<bar>binary64 (binary64 (r - binary64 0.5) * binary64 0.005)\<bar> \<le> 1 / 400 + 1 / 2 ^ 59"
proof -
  define s where "s = binary64 (r - 1 / 2)"
  define c :: real where "c = 5764607523034235 / 1152921504606846976"
  have "\<bar>r - 1 / 2\<bar> \<le> 1 / 2" using assms by linarith
  from binary64_abs_le [OF this]
  have s: "\<bar>s\<bar> \<le> 1 / 2 + 1 / 2 / 2 ^ 53 + 1 / 2 ^ 70" by (simp only: s_def)
  have "\<bar>s * c\<bar> = \<bar>s\<bar> * c" by (simp add: abs_mult c_def)
  also have "\<dots> \<le> (1 / 2 + 1 / 2 / 2 ^ 53 + 1 / 2 ^ 70) * c"
    using s by (intro mult_right_mono) (simp_all add: c_def)
  finally have sc: "\<bar>s * c\<bar> \<le> (1 / 2 + 1 / 2 / 2 ^ 53 + 1 / 2 ^ 70) * c" .
  from binary64_abs_le [OF sc]
  have "\<bar>binary64 (s * c)\<bar>
          \<le> (1 / 2 + 1 / 2 / 2 ^ 53 + 1 / 2 ^ 70) * c
            + (1 / 2 + 1 / 2 / 2 ^ 53 + 1 / 2 ^ 70) * c / 2 ^ 53 + 1 / 2 ^ 70" .
  also have "\<dots> \<le> 1 / 400 + 1 / 2 ^ 59" by (simp add: c_def)
  finally show ?thesis by (simp add: s_def c_def binary64_half binary64_0_005)
qed

lemma double_axis_bound:
  assumes "0 \<le> r" and "r < 1"
  shows "\<bar>binary64 (x + binary64 (binary64 (r - binary64 0.5) * binary64 0.005)) - x\<bar>
           \<le> 0.0025 + (\<bar>x\<bar> + 1) / 2 ^ 53"
proof -
  define p where "p = binary64 (binary64 (r - binary64 0.5) * binary64 0.005)"
  have p: "\<bar>p\<bar> \<le> 1 / 400 + 1 / 2 ^ 59"
    unfolding p_def using assms by (rule double_offset_bound)
  have "\<bar>x + p\<bar> \<le> \<bar>x\<bar> + \<bar>p\<bar>" by (rule abs_triangle_ineq)
  then have "\<bar>x + p\<bar> / 2 ^ 53 \<le> (\<bar>x\<bar> + \<bar>p\<bar>) / 2 ^ 53" by (simp add: divide_right_mono)
  then have "\<bar>binary64 (x + p) - (x + p)\<bar> \<le> (\<bar>x\<bar> + \<bar>p\<bar>) / 2 ^ 53 + 1 / 2 ^ 70"
    using binary64_error_loose [of "x + p"] by linarith
  moreover have "\<bar>binary64 (x + p) - x\<bar> \<le> \<bar>binary64 (x + p) - (x + p)\<bar> + \<bar>p\<bar>"
    by linarith
  ultimately have "\<bar>binary64 (x + p) - x\<bar> \<le> (\<bar>x\<bar> + \<bar>p\<bar>) / 2 ^ 53 + 1 / 2 ^ 70 + \<bar>p\<bar>"
    by linarith
  also have "\<dots> \<le> 0.0025 + (\<bar>x\<bar> + 1) / 2 ^ 53"
    using p by (simp add: field_simps)
  finally show ?thesis by (simp only: p_def)
qed

lemma exact_axis_bound:
  assumes "0 \<le> r" and "r < 1"
  shows "\<bar>x + (r - 0.5) * 0.005 - x\<bar> \<le> (0.0025 :: real)"
proof -
  have "\<bar>r - 1 / 2\<bar> \<le> 1 / 2" using assms by linarith
  then have "\<bar>r - 1 / 2\<bar> * (1 / 200) \<le> 1 / 2 * (1 / 200)"
    by (intro mult_right_mono) simp_all
  moreover have "\<bar>(r - 1 / 2) * (1 / 200)\<bar> = \<bar>r - 1 / 2\<bar> * (1 / 200)"
    by (simp add: abs_mult)
  ultimately have "\<bar>(r - 1 / 2) * (1 / 200)\<bar> \<le> 1 / 400" by simp
  then show ?thesis by simp
qed

section \<open>Keys and colours\<close>

declare decimal.simps [simp del]

lemma below_ten: "(d::nat) < 10 \<Longrightarrow> d \<in> {0, 1, 2, 3, 4, 5, 6, 7, 8, 9}"
  by auto

lemma digit_value_digit_char: "d < 10 \<Longrightarrow> digit_value (digit_char d) = d"
  by (drule below_ten) (auto simp: digit_value_def digit_char_def)

lemma digit_char_is_digit: "d < 10 \<Longrightarrow> is_digit (digit_char d)"
  by (drule below_ten) (auto simp: is_digit_def digit_char_def)

lemma undecimal_snoc: "undecimal (s @ [c]) = 10 * undecimal s + digit_value c"
  by (simp add: undecimal_def)

lemma undecimal_decimal: "undecimal (decimal n) = n"
proof (induction n rule: decimal.induct)
  case (1 n)
  show ?case
  proof (cases "n < 10")
    case True
    then show ?thesis
      by (subst decimal.simps) (simp add: undecimal_def digit_value_digit_char)
  next
    case False
    then have "undecimal (decimal (n div 10)) = n div 10" using 1 by simp
    then show ?thesis using False
      by (subst decimal.simps) (simp add: undecimal_snoc digit_value_digit_char)
  qed
qed

lemma decimal_inj: "decimal m = decimal n \<Longrightarrow> m = n"
  by (metis undecimal_decimal)

lemma decimal_digits: "c \<in> set (decimal n) \<Longrightarrow> is_digit c"
proof (induction n rule: decimal.induct)
  case (1 n)
  show ?case
  proof (cases "n < 10")
    case True
    then show ?thesis using 1(2)
      by (subst (asm) decimal.simps) (simp add: digit_char_is_digit)
  next
    case False
    then show ?thesis using 1
      by (subst (asm) (2) decimal.simps) (auto simp: digit_char_is_digit)
  qed
qed

lemma decimal_nonempty: "decimal n \<noteq> []"
  by (subst decimal.simps) simp

lemma decimal_hd: "decimal n = c # s \<Longrightarrow> is_digit c"
  using decimal_digits [of c n] by simp

lemma Number_toString_inj: "Number_toString a = Number_toString b \<Longrightarrow> a = b"
proof (cases a; cases b)
  fix i j assume ab: "a = Num i" "b = Num j" and eq: "Number_toString a = Number_toString b"
  show "a = b"
  proof (cases "i < 0"; cases "j < 0")
    assume "i < 0" "j < 0"
    then show ?thesis using eq ab decimal_inj [of "nat (- i)" "nat (- j)"]
      by (simp add: Number_toString_def)
  next
    assume "i < 0" "\<not> j < 0"
    then have "decimal (nat j) = CHR ''-'' # decimal (nat (- i))"
      using eq ab by (simp add: Number_toString_def)
    from decimal_hd [OF this] show ?thesis by (simp add: is_digit_def)
  next
    assume "\<not> i < 0" "j < 0"
    then have "decimal (nat i) = CHR ''-'' # decimal (nat (- j))"
      using eq ab by (simp add: Number_toString_def)
    from decimal_hd [OF this] show ?thesis by (simp add: is_digit_def)
  next
    assume "\<not> i < 0" "\<not> j < 0"
    then show ?thesis using eq ab decimal_inj [of "nat i" "nat j"]
      by (simp add: Number_toString_def)
  qed
next
  fix j assume ab: "a = NaN" "b = Num j" and eq: "Number_toString a = Number_toString b"
  show "a = b"
  proof (cases "j < 0")
    case True
    then show ?thesis using eq ab by (simp add: Number_toString_def)
  next
    case False
    then have "decimal (nat j) = CHR ''N'' # ''aN''" using eq ab by (simp add: Number_toString_def)
    from decimal_hd [OF this] show ?thesis by (simp add: is_digit_def)
  qed
next
  fix i assume ab: "a = Num i" "b = NaN" and eq: "Number_toString a = Number_toString b"
  show "a = b"
  proof (cases "i < 0")
    case True
    then show ?thesis using eq ab by (simp add: Number_toString_def)
  next
    case False
    then have "decimal (nat i) = CHR ''N'' # ''aN''" using eq ab by (simp add: Number_toString_def)
    from decimal_hd [OF this] show ?thesis by (simp add: is_digit_def)
  qed
qed simp

lemma inj_Number_toString: "inj Number_toString"
  by (rule injI) (rule Number_toString_inj)

lemma length_tailwindColorNames: "length tailwindColorNames = 20"
  by (simp add: tailwindColorNames_def)

lemma distinct_tailwindColorNames: "distinct tailwindColorNames"
  by (simp add: tailwindColorNames_def)

lemma tailwindColorNames_nonempty: "[] \<notin> set tailwindColorNames"
  by (simp add: tailwindColorNames_def)

lemma palette_entry_nonempty: "tailwindColorNames ! (i mod length tailwindColorNames) \<noteq> []"
proof -
  have "i mod length tailwindColorNames < length tailwindColorNames"
    by (simp add: length_tailwindColorNames)
  then have "tailwindColorNames ! (i mod length tailwindColorNames) \<in> set tailwindColorNames"
    by (rule nth_mem)
  then show ?thesis using tailwindColorNames_nonempty by metis
qed

lemma color_inv_bound:
  assumes "color_inv s ks" "k \<in> set ks"
  shows "\<exists>v. fst s k = Some v \<and> v \<noteq> []"
proof -
  from assms(2) obtain i where i: "i < length ks" "ks ! i = k"
    by (auto simp: in_set_conv_nth)
  then have "fst s k = Some (tailwindColorNames ! (i mod length tailwindColorNames))"
    using assms(1) by (auto simp: color_inv_def)
  then show ?thesis using palette_entry_nonempty by simp
qed

lemma color_step_seen:
  assumes "color_inv s ks" "Number_toString (year item) \<in> set ks"
  shows "color_step s item = s"
proof -
  obtain v where "fst s (Number_toString (year item)) = Some v" "v \<noteq> []"
    using color_inv_bound [OF assms] by blast
  then show ?thesis by (cases s) (simp add: color_step_def)
qed

lemma color_step_new:
  assumes "color_inv s ks" "Number_toString (year item) \<notin> set ks"
  shows "color_step s item
           = ((fst s)(Number_toString (year item) \<mapsto>
                        tailwindColorNames ! (length ks mod length tailwindColorNames)),
              Suc (length ks))"
proof -
  have "fst s (Number_toString (year item)) = None"
    using assms by (auto simp: color_inv_def dom_def)
  moreover have "snd s = length ks" using assms(1) by (simp add: color_inv_def)
  ultimately show ?thesis by (cases s) (simp add: color_step_def)
qed

lemma color_inv_new:
  assumes "color_inv s ks" "k \<notin> set ks"
  shows "color_inv ((fst s)(k \<mapsto> tailwindColorNames ! (length ks mod length tailwindColorNames)),
                    Suc (length ks)) (ks @ [k])"
proof -
  have old: "\<And>i. i < length ks \<Longrightarrow> ks ! i \<noteq> k"
    using assms(2) by (metis nth_mem)
  show ?thesis
    using assms old
    by (auto simp: color_inv_def nth_append less_Suc_eq)
qed

lemma color_step_inv:
  assumes "color_inv s ks"
  shows "\<exists>tl. color_inv (color_step s item) (ks @ tl)
              \<and> set (ks @ tl) = insert (Number_toString (year item)) (set ks)"
proof (cases "Number_toString (year item) \<in> set ks")
  case True
  then have "color_inv (color_step s item) (ks @ [])"
    using assms by (simp add: color_step_seen)
  moreover have "set (ks @ []) = insert (Number_toString (year item)) (set ks)"
    using True by auto
  ultimately show ?thesis by blast
next
  case False
  then have "color_inv (color_step s item) (ks @ [Number_toString (year item)])"
    using assms by (simp add: color_step_new color_inv_new)
  moreover have "set (ks @ [Number_toString (year item)])
                   = insert (Number_toString (year item)) (set ks)"
    by simp
  ultimately show ?thesis by blast
qed

lemma color_foldl_inv:
  assumes "color_inv s ks"
  shows "\<exists>tl. color_inv (foldl color_step s ps) (ks @ tl)
              \<and> set (ks @ tl) = set ks \<union> (\<lambda>p. Number_toString (year p)) ` set ps"
  using assms
proof (induction ps arbitrary: s ks)
  case Nil
  then have "color_inv (foldl color_step s []) (ks @ [])" by simp
  moreover have "set (ks @ []) = set ks \<union> (\<lambda>p. Number_toString (year p)) ` set []" by simp
  ultimately show ?case by blast
next
  case (Cons p ps)
  from color_step_inv [OF Cons.prems, of p] obtain t1 where
    t1: "color_inv (color_step s p) (ks @ t1)"
        "set (ks @ t1) = insert (Number_toString (year p)) (set ks)" by blast
  from Cons.IH [OF t1(1)] obtain t2 where
    t2: "color_inv (foldl color_step (color_step s p) ps) ((ks @ t1) @ t2)"
        "set ((ks @ t1) @ t2) = set (ks @ t1) \<union> (\<lambda>p. Number_toString (year p)) ` set ps" by blast
  have "color_inv (foldl color_step s (p # ps)) (ks @ (t1 @ t2))"
    using t2(1) by simp
  moreover have "set (ks @ (t1 @ t2)) = set ks \<union> (\<lambda>p. Number_toString (year p)) ` set (p # ps)"
    using t1(2) t2(2) by auto
  ultimately show ?case by blast
qed

lemma color_inv_empty: "color_inv (Map.empty, 0) []"
  by (simp add: color_inv_def)

lemma card_keys: "card ((\<lambda>p. Number_toString (year p)) ` A) = card (year ` A)"
proof -
  have "(\<lambda>p. Number_toString (year p)) ` A = Number_toString ` (year ` A)" by auto
  moreover have "inj_on Number_toString (year ` A)"
    using inj_Number_toString by (rule inj_on_subset) simp
  ultimately show ?thesis by (simp add: card_image)
qed

lemma colorMap_keys:
  "\<exists>ks. color_inv (foldl color_step (Map.empty, 0) ps) ks
        \<and> set ks = (\<lambda>p. Number_toString (year p)) ` set ps
        \<and> length ks = card (year ` set ps)"
proof -
  from color_foldl_inv [OF color_inv_empty, of ps] obtain ks where
    ks: "color_inv (foldl color_step (Map.empty, 0) ps) ks"
        "set ks = (\<lambda>p. Number_toString (year p)) ` set ps" by auto
  have "distinct ks" using ks(1) by (simp add: color_inv_def)
  then have "length ks = card (set ks)" by (simp add: distinct_card)
  then have "length ks = card (year ` set ps)" using ks(2) card_keys by metis
  then show ?thesis using ks by blast
qed

lemma colorMap_first_seen:
  assumes "year p \<notin> year ` set pre"
  shows "colorMap (pre @ p # post) (Number_toString (year p))
           = Some (tailwindColorNames ! (card (year ` set pre) mod length tailwindColorNames))"
proof -
  obtain ks where ks: "color_inv (foldl color_step (Map.empty, 0) pre) ks"
      "set ks = (\<lambda>p. Number_toString (year p)) ` set pre" "length ks = card (year ` set pre)"
    using colorMap_keys by blast
  have new: "Number_toString (year p) \<notin> set ks"
    using assms ks(2) Number_toString_inj by auto
  let ?s1 = "color_step (foldl color_step (Map.empty, 0) pre) p"
  have s1: "color_inv ?s1 (ks @ [Number_toString (year p)])"
    using ks(1) new by (simp add: color_step_new color_inv_new)
  from color_foldl_inv [OF s1, of post] obtain tl where
    tl: "color_inv (foldl color_step ?s1 post) ((ks @ [Number_toString (year p)]) @ tl)" by blast
  let ?ks' = "(ks @ [Number_toString (year p)]) @ tl"
  have "length ks < length ?ks'" by simp
  then have "fst (foldl color_step ?s1 post) (?ks' ! length ks)
               = Some (tailwindColorNames ! (length ks mod length tailwindColorNames))"
    using tl unfolding color_inv_def by blast
  moreover have "?ks' ! length ks = Number_toString (year p)"
    by (simp add: nth_append)
  ultimately show ?thesis using ks(3) by (simp add: colorMap_def)
qed

lemma colorMap_bound:
  assumes "p \<in> set ps"
  shows "\<exists>i<card (year ` set ps).
           color_of ps p = Some (tailwindColorNames ! (i mod length tailwindColorNames))"
proof -
  obtain ks where ks: "color_inv (foldl color_step (Map.empty, 0) ps) ks"
      "set ks = (\<lambda>p. Number_toString (year p)) ` set ps" "length ks = card (year ` set ps)"
    using colorMap_keys by blast
  have "Number_toString (year p) \<in> set ks" using assms ks(2) by auto
  then obtain i where i: "i < length ks" "ks ! i = Number_toString (year p)"
    by (auto simp: in_set_conv_nth)
  have "fst (foldl color_step (Map.empty, 0) ps) (ks ! i)
          = Some (tailwindColorNames ! (i mod length tailwindColorNames))"
    using ks(1) i(1) unfolding color_inv_def by blast
  then have "color_of ps p = Some (tailwindColorNames ! (i mod length tailwindColorNames))"
    using i(2) by (simp add: color_of_def colorMap_def)
  then show ?thesis using i(1) ks(3) by auto
qed

lemma colorMap_distinct:
  assumes "p \<in> set ps" "q \<in> set ps" "year p \<noteq> year q"
    "card (year ` set ps) \<le> length tailwindColorNames"
  shows "color_of ps p \<noteq> color_of ps q"
proof -
  obtain ks where ks: "color_inv (foldl color_step (Map.empty, 0) ps) ks"
      "set ks = (\<lambda>p. Number_toString (year p)) ` set ps" "length ks = card (year ` set ps)"
    using colorMap_keys by blast
  have "Number_toString (year p) \<in> set ks" using assms(1) ks(2) by auto
  then obtain i where i: "i < length ks" "ks ! i = Number_toString (year p)"
    by (auto simp: in_set_conv_nth)
  have "Number_toString (year q) \<in> set ks" using assms(2) ks(2) by auto
  then obtain j where j: "j < length ks" "ks ! j = Number_toString (year q)"
    by (auto simp: in_set_conv_nth)
  have ij: "i \<noteq> j" using i j assms(3) Number_toString_inj by auto
  have il: "i < length tailwindColorNames" and jl: "j < length tailwindColorNames"
    using i(1) j(1) ks(3) assms(4) by simp_all
  have cp: "color_of ps p = Some (tailwindColorNames ! i)"
    using ks(1) i il by (auto simp: color_inv_def color_of_def colorMap_def)
  have cq: "color_of ps q = Some (tailwindColorNames ! j)"
    using ks(1) j jl by (auto simp: color_inv_def color_of_def colorMap_def)
  have "tailwindColorNames ! i \<noteq> tailwindColorNames ! j"
    using distinct_tailwindColorNames il jl ij by (simp add: nth_eq_iff_index_eq)
  then show ?thesis using cp cq by simp
qed

section \<open>Evaluation of the examples\<close>

lemmas col_defs = col_Bydliste_def col_Datum_prodeje_def col_Jmeno_def col_Prijmeni_def col_Typ_def

lemmas extract_defs = row_to_person_def truthy_cell_def nullish_empty_def
  ToString_cell_def getFullYear_def strip_digits_def is_digit_def example_dates_def

lemma row_Kyjov_person: "row_to_person example_dates row_Kyjov = person_Kyjov"
  by (simp add: row_Kyjov_def person_Kyjov_def extract_defs col_defs)

lemma row_Brno_person: "row_to_person example_dates row_Brno = person_Brno"
  by (simp add: row_Brno_def person_Brno_def extract_defs col_defs)

lemma row_no_date_person: "row_to_person example_dates row_no_date = person_no_date"
  by (simp add: row_no_date_def person_no_date_def extract_defs col_defs)

lemma example_cells:
  "row_Kyjov col_Bydliste = Some ''Kyjov 123''"
  "row_Brno col_Bydliste = Some ''Brno''"
  "row_no_date col_Bydliste = Some ''Praha 4''"
  "row_no_date col_Datum_prodeje = Some ''loni''"
  "row_digits col_Bydliste = Some ''123''"
  "row_no_city col_Bydliste = None"
  by (simp_all add: row_Kyjov_def row_Brno_def row_no_date_def row_digits_def row_no_city_def col_defs)

lemma foundPeople_Cons:
  "foundPeople rt (r # rows) =
     (if truthy_cell (r col_Bydliste) then row_to_person rt r # foundPeople rt rows
      else foundPeople rt rows)"
  by (simp add: foundPeople_def)

lemma foundPeople_Nil: "foundPeople rt [] = []"
  by (simp add: foundPeople_def)

lemma foundPeople_example:
  "foundPeople example_dates [row_Brno, row_no_city, row_no_date, row_Kyjov]
     = [person_Brno, person_no_date, person_Kyjov]"
  by (simp add: foundPeople_Cons foundPeople_Nil example_cells truthy_cell_def
        row_Kyjov_person row_Brno_person row_no_date_person)

lemma foundPeople_example1:
  "foundPeople example_dates [row_Kyjov] = [person_Kyjov]"
  by (simp add: foundPeople_Cons foundPeople_Nil example_cells truthy_cell_def row_Kyjov_person)

lemma foundPeople_example2:
  "foundPeople example_dates [row_Kyjov, row_no_city, row_Brno] = [person_Kyjov, person_Brno]"
  by (simp add: foundPeople_Cons foundPeople_Nil example_cells truthy_cell_def
        row_Kyjov_person row_Brno_person)

lemma row_digits_person: "row_to_person example_dates row_digits = person_digits"
  by (simp add: row_digits_def person_digits_def extract_defs col_defs)

lemma foundPeople_example3:
  "foundPeople example_dates [row_Brno, row_Kyjov, row_digits]
     = [person_Brno, person_Kyjov, person_digits]"
  by (simp add: foundPeople_Cons foundPeople_Nil example_cells truthy_cell_def
        row_Kyjov_person row_Brno_person row_digits_person)

lemmas person_defs = person_Brno_def person_Kyjov_def person_no_date_def person_digits_def

section \<open>Record extraction\<close>

text \<open>
  C1 (as amended). The output of \<open>foundPeople\<close> is never longer than the row table. Every
  output record comes from a row whose city cell is present and not empty, and its \<open>city\<close>
  is that cell with the digits removed; this \<open>city\<close> is non-empty exactly when the cell
  holds a character that is not a digit.
\<close>

theorem foundPeople_length_city:
  "length (foundPeople rt rows) \<le> length rows
   \<and> (\<forall>p\<in>set (foundPeople rt rows).
         \<exists>r\<in>set rows. \<exists>c. r col_Bydliste = Some c \<and> c \<noteq> [] \<and> city p = strip_digits c
           \<and> (city p \<noteq> [] \<longleftrightarrow> (\<exists>ch\<in>set c. \<not> is_digit ch)))"
proof
  show "length (foundPeople rt rows) \<le> length rows"
    by (simp add: foundPeople_def)
next
  show "\<forall>p\<in>set (foundPeople rt rows).
         \<exists>r\<in>set rows. \<exists>c. r col_Bydliste = Some c \<and> c \<noteq> [] \<and> city p = strip_digits c
           \<and> (city p \<noteq> [] \<longleftrightarrow> (\<exists>ch\<in>set c. \<not> is_digit ch))"
  proof
    fix p assume "p \<in> set (foundPeople rt rows)"
    then obtain r where r: "r \<in> set rows" "truthy_cell (r col_Bydliste)" "p = row_to_person rt r"
      by (auto simp: foundPeople_def)
    then obtain c where c: "r col_Bydliste = Some c" "c \<noteq> []"
      by (auto simp: truthy_cell_def split: option.splits)
    have "city p = strip_digits c"
      using r(3) c(1) by (simp add: row_to_person_def nullish_empty_def)
    moreover have "strip_digits c \<noteq> [] \<longleftrightarrow> (\<exists>ch\<in>set c. \<not> is_digit ch)"
      by (auto simp: strip_digits_def filter_empty_conv)
    ultimately show "\<exists>r\<in>set rows. \<exists>c. r col_Bydliste = Some c \<and> c \<noteq> [] \<and> city p = strip_digits c
           \<and> (city p \<noteq> [] \<longleftrightarrow> (\<exists>ch\<in>set c. \<not> is_digit ch))"
      using r(1) c by auto
  qed
qed

text \<open>
  C1, witness: three rows, the second without a city; two records result, and the record of
  the first row has the city of its cell \<open>Kyjov 123\<close> without the digits.
\<close>

theorem foundPeople_length_city_witness:
  "foundPeople example_dates [row_Kyjov, row_no_city, row_Brno] = [person_Kyjov, person_Brno]
   \<and> length (foundPeople example_dates [row_Kyjov, row_no_city, row_Brno]) \<le> 3
   \<and> (\<exists>r\<in>{row_Kyjov, row_no_city, row_Brno}. \<exists>c. r col_Bydliste = Some c \<and> c \<noteq> []
         \<and> city person_Kyjov = strip_digits c
         \<and> (city person_Kyjov \<noteq> [] \<longleftrightarrow> (\<exists>ch\<in>set c. \<not> is_digit ch)))"
  using foundPeople_length_city [of example_dates "[row_Kyjov, row_no_city, row_Brno]"]
  by (simp add: foundPeople_example2)

text \<open>
  C1, counterexample to the claim as stated (every output record has a non-empty city): a
  row whose city cell is \<open>123\<close> passes the filter, and its record has the empty city.
\<close>

theorem foundPeople_empty_city_counterexample:
  "[] \<in> set (map city (foundPeople example_dates [row_digits]))"
  by (simp add: foundPeople_Cons foundPeople_Nil example_cells extract_defs)

text \<open>
  C9. A row whose city cell is present and not empty, and whose sale date \<open>Date.parse\<close>
  cannot read, is not rejected: its record is in the output, with the year \<open>NaN\<close>.
\<close>

theorem unparsable_date_kept:
  assumes "r \<in> set rows" and "r col_Bydliste = Some c" and "c \<noteq> []"
    and "Date_parse rt (ToString_cell (r col_Datum_prodeje)) = NaN"
  shows "row_to_person rt r \<in> set (foundPeople rt rows)
         \<and> year (row_to_person rt r) = NaN
         \<and> city (row_to_person rt r) = strip_digits c"
proof -
  have "truthy_cell (r col_Bydliste)" using assms(2,3) by (simp add: truthy_cell_def)
  then have "row_to_person rt r \<in> set (foundPeople rt rows)"
    using assms(1) by (simp add: foundPeople_def)
  moreover have "year (row_to_person rt r) = NaN"
    using assms(4) by (simp add: row_to_person_def getFullYear_def)
  moreover have "city (row_to_person rt r) = strip_digits c"
    using assms(2) by (simp add: row_to_person_def nullish_empty_def)
  ultimately show ?thesis by simp
qed

text \<open>C9, witness: the row with the city \<open>Praha 4\<close> and the date \<open>loni\<close>.\<close>

theorem unparsable_date_kept_witness:
  "row_no_date \<in> set [row_Kyjov, row_no_date]
   \<and> row_no_date col_Bydliste = Some ''Praha 4''
   \<and> Date_parse example_dates (ToString_cell (row_no_date col_Datum_prodeje)) = NaN
   \<and> person_no_date \<in> set (foundPeople example_dates [row_Kyjov, row_no_date])
   \<and> year person_no_date = NaN"
proof -
  have h1: "row_no_date \<in> set [row_Kyjov, row_no_date]" by simp
  have h2: "row_no_date col_Bydliste = Some ''Praha 4''" by (simp add: example_cells)
  have h3: "''Praha 4'' \<noteq> []" by simp
  have h4: "Date_parse example_dates (ToString_cell (row_no_date col_Datum_prodeje)) = NaN"
    by (simp add: example_cells ToString_cell_def example_dates_def)
  from unparsable_date_kept [OF h1 h2 h3 h4] h1 h2 h4 show ?thesis
    by (simp add: row_no_date_person)
qed

section \<open>Geocoding\<close>

text \<open>
  C5. When the reply holds at least one feature, the call returns the person's four fields
  with the \<open>location\<close> made of the first feature's coordinates, \<open>coordinates[1]\<close> as
  latitude and \<open>coordinates[0]\<close> as longitude, passed through \<open>addRandomOffset\<close>: each
  axis plus \<open>(draw - 0.5) * 0.005\<close>. When the reply holds no feature (an empty array, or
  no array), the call succeeds all the same and returns the person with no location.
\<close>

theorem fetchCityLocation_location:
  "(features d = Some (f # fs) \<longrightarrow>
      fetchCityLocation (fo :: 'n float_ops) person (Inr d) rnd st
        = (Inr \<lparr> city = city person, year = year person, name = name person,
                  device = device person,
                  location = Some (addRandomOffset fo (fst rnd) (snd rnd)
                                     \<lparr> lat = snd (coordinates f), lng = fst (coordinates f) \<rparr>) \<rparr>,
           st\<lparr>processedPeople := processedPeople st + 1\<rparr>)
      \<and> addRandomOffset fo (fst rnd) (snd rnd)
            \<lparr> lat = snd (coordinates f), lng = fst (coordinates f) \<rparr>
          = \<lparr> lat = fadd fo (snd (coordinates f))
                        (fmul fo (fsub fo (fst rnd) (c_0_5 fo)) (c_0_005 fo)),
              lng = fadd fo (fst (coordinates f))
                        (fmul fo (fsub fo (snd rnd) (c_0_5 fo)) (c_0_005 fo)) \<rparr>)
   \<and> (features d = Some [] \<or> features d = None \<longrightarrow>
      fetchCityLocation fo person (Inr d) rnd st
        = (Inr \<lparr> city = city person, year = year person, name = name person,
                  device = device person, location = None \<rparr>,
           st\<lparr>processedPeople := processedPeople st + 1\<rparr>))"
  by (auto simp: fetchCityLocation_def Let_def with_location_def addRandomOffset_def)

text \<open>
  C5, witness: the reply \<open>[17.12253, 49.01018]\<close> with the draws \<open>0.25\<close> and \<open>0.75\<close> in exact
  arithmetic, and the reply with an empty \<open>features\<close> array.
\<close>

theorem fetchCityLocation_location_witness:
  "fst (fetchCityLocation exact_ops person_Kyjov reply_Kyjov (0.25, 0.75) state0)
     = Inr \<lparr> city = ''Kyjov '', year = Num 2021, name = ''Jan Novak'', device = Some ''TV'',
             location = Some \<lparr> lat = 49.00893, lng = 17.12378 \<rparr> \<rparr>
   \<and> fst (fetchCityLocation exact_ops person_Kyjov reply_none (0.25, 0.75) state0)
     = Inr \<lparr> city = ''Kyjov '', year = Num 2021, name = ''Jan Novak'', device = Some ''TV'',
             location = None \<rparr>"
proof -
  let ?f = "\<lparr> coordinates = (17.12253 :: real, 49.01018 :: real) \<rparr>"
  have "fetchCityLocation exact_ops person_Kyjov (Inr \<lparr> features = Some [?f] \<rparr>) (0.25, 0.75) state0
          = (Inr \<lparr> city = city person_Kyjov, year = year person_Kyjov, name = name person_Kyjov,
                    device = device person_Kyjov,
                    location = Some (addRandomOffset exact_ops (fst (0.25 :: real, 0.75 :: real))
                                       (snd (0.25 :: real, 0.75 :: real))
                                       \<lparr> lat = snd (coordinates ?f), lng = fst (coordinates ?f) \<rparr>) \<rparr>,
             state0\<lparr>processedPeople := processedPeople state0 + 1\<rparr>)"
    using fetchCityLocation_location
            [of "\<lparr> features = Some [?f] \<rparr>" ?f "[]" exact_ops person_Kyjov "(0.25, 0.75)" state0]
    by simp
  then have found: "fst (fetchCityLocation exact_ops person_Kyjov reply_Kyjov (0.25, 0.75) state0)
     = Inr \<lparr> city = ''Kyjov '', year = Num 2021, name = ''Jan Novak'', device = Some ''TV'',
             location = Some \<lparr> lat = 49.00893, lng = 17.12378 \<rparr> \<rparr>"
    by (simp add: reply_Kyjov_def addRandomOffset_def exact_ops_def Let_def person_Kyjov_def)
  have "fetchCityLocation exact_ops person_Kyjov (Inr \<lparr> features = Some [] \<rparr>) (0.25, 0.75) state0
          = (Inr \<lparr> city = city person_Kyjov, year = year person_Kyjov, name = name person_Kyjov,
                    device = device person_Kyjov, location = None \<rparr>,
             state0\<lparr>processedPeople := processedPeople state0 + 1\<rparr>)"
    using fetchCityLocation_location
            [of "\<lparr> features = Some [] \<rparr>" undefined undefined exact_ops person_Kyjov "(0.25, 0.75)" state0]
    by simp
  then have none: "fst (fetchCityLocation exact_ops person_Kyjov reply_none (0.25, 0.75) state0)
     = Inr \<lparr> city = ''Kyjov '', year = Num 2021, name = ''Jan Novak'', device = Some ''TV'',
             location = None \<rparr>"
    by (simp add: reply_none_def person_Kyjov_def)
  from found none show ?thesis by simp
qed

text \<open>
  C8 (as amended). For every coordinate and every pair of draws in \<open>[0, 1)\<close>: in exact
  arithmetic each axis of the output of \<open>addRandomOffset\<close> is within \<open>0.0025\<close> of the input;
  in the doubles' arithmetic each axis is within \<open>0.0025 + (|x| + 1) / 2^53\<close> of the input
  \<open>x\<close>, the excess being the rounding of the three operations.
\<close>

theorem addRandomOffset_within:
  assumes "0 \<le> r1" and "r1 < 1" and "0 \<le> r2" and "r2 < 1"
  shows "\<bar>lat (addRandomOffset exact_ops r1 r2 loc) - lat loc\<bar> \<le> 0.0025
         \<and> \<bar>lng (addRandomOffset exact_ops r1 r2 loc) - lng loc\<bar> \<le> 0.0025
         \<and> \<bar>lat (addRandomOffset double_ops r1 r2 loc) - lat loc\<bar>
             \<le> 0.0025 + (\<bar>lat loc\<bar> + 1) / 2 ^ 53
         \<and> \<bar>lng (addRandomOffset double_ops r1 r2 loc) - lng loc\<bar>
             \<le> 0.0025 + (\<bar>lng loc\<bar> + 1) / 2 ^ 53"
proof -
  have e1: "\<bar>lat (addRandomOffset exact_ops r1 r2 loc) - lat loc\<bar> \<le> 0.0025"
    using exact_axis_bound [OF assms(1,2), of "lat loc"]
    by (simp add: addRandomOffset_def exact_ops_def)
  have e2: "\<bar>lng (addRandomOffset exact_ops r1 r2 loc) - lng loc\<bar> \<le> 0.0025"
    using exact_axis_bound [OF assms(3,4), of "lng loc"]
    by (simp add: addRandomOffset_def exact_ops_def)
  have d1: "\<bar>lat (addRandomOffset double_ops r1 r2 loc) - lat loc\<bar>
             \<le> 0.0025 + (\<bar>lat loc\<bar> + 1) / 2 ^ 53"
    using double_axis_bound [OF assms(1,2), of "lat loc"]
    by (simp only: addRandomOffset_def double_ops_def Let_def float_ops.simps Location.simps)
  have d2: "\<bar>lng (addRandomOffset double_ops r1 r2 loc) - lng loc\<bar>
             \<le> 0.0025 + (\<bar>lng loc\<bar> + 1) / 2 ^ 53"
    using double_axis_bound [OF assms(3,4), of "lng loc"]
    by (simp only: addRandomOffset_def double_ops_def Let_def float_ops.simps Location.simps)
  from e1 e2 d1 d2 show ?thesis by blast
qed

text \<open>
  C8, witness: \<open>kyjovLocation\<close> with the draws \<open>0\<close> and \<open>3/4\<close>; the longitude of the output in
  doubles.
\<close>

theorem addRandomOffset_within_witness:
  "\<bar>lat (addRandomOffset exact_ops 0 (3 / 4) kyjovLocation) - lat kyjovLocation\<bar> \<le> 0.0025
   \<and> \<bar>lng (addRandomOffset double_ops (3 / 4) 0 kyjovLocation) - lng kyjovLocation\<bar>
       \<le> 0.0025 + (\<bar>lng kyjovLocation\<bar> + 1) / 2 ^ 53
   \<and> lng kyjovLocation = 4819563732977509 / 281474976710656
   \<and> lng (addRandomOffset double_ops (3 / 4) 0 kyjovLocation) = 1204715011383933 / 70368744177664"
proof -
  have h: "(0::real) \<le> 0" "(0::real) < 1" "(0::real) \<le> 3 / 4" "(3 / 4 :: real) < 1" by simp_all
  have v: "lng kyjovLocation = 4819563732977509 / 281474976710656"
    by (simp add: kyjovLocation_def binary64_eval)
  have w: "lng (addRandomOffset double_ops (3 / 4) 0 kyjovLocation) = 1204715011383933 / 70368744177664"
    by (simp add: kyjovLocation_def addRandomOffset_def double_ops_def binary64_eval)
  from addRandomOffset_within [OF h(1,2,3,4), of kyjovLocation]
       addRandomOffset_within [OF h(3,4,1,2), of kyjovLocation] v w
  show ?thesis by blast
qed

text \<open>
  C8, counterexample to the claim as stated (within \<open>0.0025\<close> for every coordinate and
  draw): in doubles, the longitude of \<open>kyjovLocation\<close> with the draw \<open>0\<close> moves by
  \<open>0.0025 + 9/7036874417766400\<close>.
\<close>

theorem addRandomOffset_beyond_counterexample:
  "\<not> \<bar>lng (addRandomOffset double_ops 0 0 kyjovLocation) - lng kyjovLocation\<bar> \<le> 0.0025"
  by (simp add: kyjovLocation_def addRandomOffset_def double_ops_def binary64_eval)

section \<open>The run\<close>

text \<open>
  C2. On a sheet of one row whose lookup succeeds, the run ends with \<open>totalPeople = 1\<close> and
  \<open>processedPeople = 2\<close>: the counter is incremented in \<open>fetchCityLocation\<close> and once more
  in the callback of \<open>processFile\<close>, twice for each completed lookup
  (\<open>processedPeople_fulfilled\<close> is the general law).
\<close>

theorem processed_counted_twice:
  "totalPeople (processFile exact_ops example_dates net_all_found draws (Some [row_Kyjov]) state0) = 1
   \<and> processedPeople (processFile exact_ops example_dates net_all_found draws (Some [row_Kyjov]) state0) = 2"
  by (simp add: processFile_def foundPeople_example1 Let_def assign_callback_def
        fetchCityLocation_def net_all_found_def reply_Kyjov_def)

text \<open>
  C3. When the lookup of some record is rejected, \<open>Promise.all\<close> rejects, so no list of
  resolved records exists, and the run leaves \<open>people\<close>, the resolved set on display, as it
  was before the run.
\<close>

theorem lookup_failure_atomic:
  assumes "i < length (foundPeople rt rows)" and "net i = Inl LookupFailure"
  shows "fst (Promise_all fo net rnd 0 (foundPeople rt rows) st') = Inl LookupFailure
         \<and> people (processFile fo rt net rnd (Some rows) st) = people st"
  using Promise_all_rejects [of i "foundPeople rt rows" net 0 LookupFailure fo rnd st']
    processFile_rejected [of i rt rows net LookupFailure fo rnd st] assms
  by simp

text \<open>
  C3, witness: three records, the lookup of the second fails; the earlier resolved set of
  one record is still there.
\<close>

theorem lookup_failure_atomic_witness:
  "(1::nat) < length (foundPeople example_dates [row_Brno, row_no_city, row_no_date, row_Kyjov])
   \<and> net_second_fails 1 = Inl LookupFailure
   \<and> people (processFile exact_ops example_dates net_second_fails draws
               (Some [row_Brno, row_no_city, row_no_date, row_Kyjov]) state0)
     = [with_location person_Brno None]"
proof -
  have h1: "(1::nat) < length (foundPeople example_dates [row_Brno, row_no_city, row_no_date, row_Kyjov])"
    by (simp add: foundPeople_example)
  have h2: "net_second_fails 1 = Inl LookupFailure"
    by (simp add: net_second_fails_def)
  from lookup_failure_atomic
         [where i = 1 and net = net_second_fails and rt = example_dates
            and rows = "[row_Brno, row_no_city, row_no_date, row_Kyjov]"
            and fo = exact_ops and rnd = draws and st = state0 and st' = state0]
       h1 h2
  show ?thesis by (simp add: state0_def)
qed

text \<open>
  C4 (as amended). When every lookup succeeds and no record has the year \<open>NaN\<close>, the run
  stores the records in ascending order of year, and the records of each year in the order
  they had in the input.
\<close>

theorem people_sorted_stable:
  assumes "\<forall>i<length (foundPeople rt rows). \<exists>d. net i = Inr d"
    and "\<forall>p\<in>set (foundPeople rt rows). year p \<noteq> NaN"
  shows "sorted_wrt (\<lambda>a b. js_le (year a) (year b)) (people (processFile fo rt net rnd (Some rows) st))
         \<and> (\<forall>y. filter (\<lambda>p. year p = y) (map person_of (people (processFile fo rt net rnd (Some rows) st)))
                  = filter (\<lambda>p. year p = y) (foundPeople rt rows))"
proof -
  from processFile_fulfilled [OF assms(1), of fo rnd st] obtain assigned where
    a: "map (\<lambda>x. person_of (the x)) assigned = foundPeople rt rows"
       "processFile fo rt net rnd (Some rows) st
              = st\<lparr> isLoading := False, totalPeople := length (foundPeople rt rows),
                     processedPeople := 2 * length (foundPeople rt rows),
                     people := js_sort by_year (map the assigned) \<rparr>"
    by blast
  have p: "people (processFile fo rt net rnd (Some rows) st) = js_sort by_year (map the assigned)"
    using a(2) by simp
  have found: "map person_of (map the assigned) = foundPeople rt rows"
    using a(1) by (simp add: comp_def)
  have "\<forall>q\<in>set (map the assigned). year q \<noteq> NaN"
  proof
    fix q assume "q \<in> set (map the assigned)"
    then have "person_of q \<in> set (map person_of (map the assigned))" by auto
    then have "person_of q \<in> set (foundPeople rt rows)" by (simp only: found)
    then have "year (person_of q) \<noteq> NaN" using assms(2) by blast
    then show "year q \<noteq> NaN" by (simp add: year_person_of)
  qed
  then have s: "sorted_wrt (\<lambda>a b. js_le (year a) (year b)) (js_sort by_year (map the assigned))"
    by (rule sorted_js_sort)
  have "\<And>y. filter (\<lambda>p. year p = y) (map person_of (js_sort by_year (map the assigned)))
                  = filter (\<lambda>p. year p = y) (foundPeople rt rows)"
    using found by (simp only: js_sort_person_of filter_js_sort)
  then show ?thesis using s p by simp
qed

text \<open>
  C4, witness: the years 2022, 2021, 2021; the two records of 2021 keep their order.
\<close>

theorem people_sorted_stable_witness:
  "map year (foundPeople example_dates [row_Brno, row_Kyjov, row_digits])
     = [Num 2022, Num 2021, Num 2021]
   \<and> sorted_wrt (\<lambda>a b. js_le (year a) (year b))
        (people (processFile exact_ops example_dates net_first_found draws
                   (Some [row_Brno, row_Kyjov, row_digits]) state0))
   \<and> filter (\<lambda>p. year p = Num 2021)
        (map person_of (people (processFile exact_ops example_dates net_first_found draws
                                  (Some [row_Brno, row_Kyjov, row_digits]) state0)))
       = [person_Kyjov, person_digits]"
proof -
  have h1: "\<forall>i<length (foundPeople example_dates [row_Brno, row_Kyjov, row_digits]).
       \<exists>d. net_first_found i = Inr d"
    by (simp add: net_first_found_def reply_Kyjov_def reply_none_def)
  have h2: "\<forall>p\<in>set (foundPeople example_dates [row_Brno, row_Kyjov, row_digits]). year p \<noteq> NaN"
    by (simp add: foundPeople_example3 person_defs)
  have f: "filter (\<lambda>p. year p = Num 2021) (foundPeople example_dates [row_Brno, row_Kyjov, row_digits])
             = [person_Kyjov, person_digits]"
    by (simp add: foundPeople_example3 person_defs)
  from people_sorted_stable
         [where rt = example_dates and rows = "[row_Brno, row_Kyjov, row_digits]"
            and net = net_first_found and fo = exact_ops and rnd = draws and st = state0, OF h1 h2]
  have "sorted_wrt (\<lambda>a b. js_le (year a) (year b))
          (people (processFile exact_ops example_dates net_first_found draws
                     (Some [row_Brno, row_Kyjov, row_digits]) state0))
        \<and> filter (\<lambda>p. year p = Num 2021)
            (map person_of (people (processFile exact_ops example_dates net_first_found draws
                                      (Some [row_Brno, row_Kyjov, row_digits]) state0)))
          = filter (\<lambda>p. year p = Num 2021) (foundPeople example_dates [row_Brno, row_Kyjov, row_digits])"
    by blast
  moreover have "map year (foundPeople example_dates [row_Brno, row_Kyjov, row_digits])
     = [Num 2022, Num 2021, Num 2021]"
    by (simp add: foundPeople_example3 person_defs)
  ultimately show ?thesis by (simp only: f)
qed

text \<open>
  C4, counterexample to the claim as stated (for every input list): with the years 2022,
  \<open>NaN\<close>, 2021 the comparator returns \<open>NaN\<close> next to the middle record, nothing moves, and
  2022 stays before 2021.
\<close>

theorem people_unsorted_with_NaN_counterexample:
  "\<not> sorted_wrt (\<lambda>a b. \<not> js_gt (year a) (year b))
       (people (processFile exact_ops example_dates net_no_match draws
                  (Some [row_Brno, row_no_city, row_no_date, row_Kyjov]) state0))"
  by (simp add: processFile_def foundPeople_example Let_def assign_callback_def
        fetchCityLocation_def net_no_match_def reply_none_def filteredAndSortedPeople_def
        js_sort_def by_year_def with_location_def person_Brno_def person_no_date_def person_Kyjov_def)

text \<open>
  C10. When every lookup succeeds, \<open>Promise.all\<close> gives one element for each input record,
  in order, none of them \<open>null\<close> (the filter removes nothing), each with the \<open>city\<close>,
  \<open>year\<close>, \<open>name\<close> and \<open>device\<close> of its input record. The stored list is a permutation
  of these elements: it has the length of the input, and without the locations it holds
  exactly the input records, each as often as the input does.
\<close>

theorem resolution_keeps_records:
  assumes "\<forall>i<length (foundPeople rt rows). \<exists>d. net i = Inr d"
  shows "\<exists>assignedPeople.
           fst (Promise_all fo net rnd 0 (foundPeople rt rows)
                  (st\<lparr>isLoading := True, totalPeople := length (foundPeople rt rows), processedPeople := 0\<rparr>))
             = Inr assignedPeople
           \<and> filter (\<lambda>element. element \<noteq> None) assignedPeople = assignedPeople
           \<and> map (\<lambda>element. person_of (the element)) assignedPeople = foundPeople rt rows
           \<and> mset (people (processFile fo rt net rnd (Some rows) st)) = mset (map the assignedPeople)
           \<and> length (people (processFile fo rt net rnd (Some rows) st)) = length (foundPeople rt rows)
           \<and> mset (map person_of (people (processFile fo rt net rnd (Some rows) st)))
               = mset (foundPeople rt rows)"
proof -
  from processFile_fulfilled [OF assms, of fo rnd st] obtain assigned where
    a: "fst (Promise_all fo net rnd 0 (foundPeople rt rows)
                  (st\<lparr>isLoading := True, totalPeople := length (foundPeople rt rows), processedPeople := 0\<rparr>))
             = Inr assigned"
       "None \<notin> set assigned"
       "map (\<lambda>x. person_of (the x)) assigned = foundPeople rt rows"
       "processFile fo rt net rnd (Some rows) st
              = st\<lparr> isLoading := False, totalPeople := length (foundPeople rt rows),
                     processedPeople := 2 * length (foundPeople rt rows),
                     people := js_sort by_year (map the assigned) \<rparr>"
    by blast
  have "\<forall>element\<in>set assigned. element \<noteq> None" using a(2) by metis
  then have f: "filter (\<lambda>element. element \<noteq> None) assigned = assigned"
    by (rule filter_True)
  have p: "people (processFile fo rt net rnd (Some rows) st) = js_sort by_year (map the assigned)"
    using a(4) by simp
  have ms: "mset (people (processFile fo rt net rnd (Some rows) st)) = mset (map the assigned)"
    by (simp only: p mset_js_sort)
  have "length assigned = length (foundPeople rt rows)"
    using a(3) by (metis length_map)
  then have l: "length (people (processFile fo rt net rnd (Some rows) st)) = length (foundPeople rt rows)"
    using p by (simp add: length_js_sort)
  have found: "map person_of (map the assigned) = foundPeople rt rows"
    using a(3) by (simp add: comp_def)
  have "mset (map person_of (people (processFile fo rt net rnd (Some rows) st)))
          = image_mset person_of (mset (map the assigned))"
    by (simp only: ms mset_map)
  also have "\<dots> = mset (map person_of (map the assigned))" by (simp only: mset_map)
  finally have m: "mset (map person_of (people (processFile fo rt net rnd (Some rows) st)))
               = mset (foundPeople rt rows)"
    by (simp only: found)
  from a(1) f a(3) ms l m show ?thesis by blast
qed

text \<open>
  C10, witness: three records, one of them with the year \<open>NaN\<close>, the first with a match
  and the others without; all three are kept.
\<close>

theorem resolution_keeps_records_witness:
  "foundPeople example_dates [row_Brno, row_no_city, row_no_date, row_Kyjov]
     = [person_Brno, person_no_date, person_Kyjov]
   \<and> length (people (processFile exact_ops example_dates net_first_found draws
                       (Some [row_Brno, row_no_city, row_no_date, row_Kyjov]) state0)) = 3
   \<and> mset (map person_of (people (processFile exact_ops example_dates net_first_found draws
                       (Some [row_Brno, row_no_city, row_no_date, row_Kyjov]) state0)))
       = {#person_Brno, person_no_date, person_Kyjov#}"
proof -
  have h: "\<forall>i<length (foundPeople example_dates [row_Brno, row_no_city, row_no_date, row_Kyjov]).
       \<exists>d. net_first_found i = Inr d"
    by (simp add: net_first_found_def reply_Kyjov_def reply_none_def)
  from resolution_keeps_records
         [where rt = example_dates and rows = "[row_Brno, row_no_city, row_no_date, row_Kyjov]"
            and net = net_first_found and fo = exact_ops and rnd = draws and st = state0, OF h]
  have "length (people (processFile exact_ops example_dates net_first_found draws
                       (Some [row_Brno, row_no_city, row_no_date, row_Kyjov]) state0))
          = length (foundPeople example_dates [row_Brno, row_no_city, row_no_date, row_Kyjov])
        \<and> mset (map person_of (people (processFile exact_ops example_dates net_first_found draws
                       (Some [row_Brno, row_no_city, row_no_date, row_Kyjov]) state0)))
          = mset (foundPeople example_dates [row_Brno, row_no_city, row_no_date, row_Kyjov])"
    by blast
  then show ?thesis by (simp only: foundPeople_example) simp
qed

section \<open>Colours and filter\<close>

text \<open>
  C6. The palette has 20 entries. Records of the same year get the same colour, an entry
  of the palette. A record whose year does not occur before it in the list gets the entry
  at the number of distinct years before it, modulo the palette's length. When the list has
  at most 20 distinct years, records of different years get different colours.
\<close>

theorem colorMap_assignment:
  "length tailwindColorNames = 20
   \<and> (\<forall>p\<in>set ps. \<forall>q\<in>set ps. year p = year q \<longrightarrow>
         color_of ps p = color_of ps q \<and> color_of ps p \<in> Some ` set tailwindColorNames)
   \<and> (\<forall>pre p post. ps = pre @ p # post \<and> year p \<notin> year ` set pre \<longrightarrow>
         color_of ps p
           = Some (tailwindColorNames ! (card (year ` set pre) mod length tailwindColorNames)))
   \<and> (card (year ` set ps) \<le> length tailwindColorNames \<longrightarrow>
         (\<forall>p\<in>set ps. \<forall>q\<in>set ps. year p \<noteq> year q \<longrightarrow> color_of ps p \<noteq> color_of ps q))"
proof (intro conjI)
  show "length tailwindColorNames = 20" by (rule length_tailwindColorNames)
next
  show "\<forall>p\<in>set ps. \<forall>q\<in>set ps. year p = year q \<longrightarrow>
         color_of ps p = color_of ps q \<and> color_of ps p \<in> Some ` set tailwindColorNames"
  proof (intro ballI impI conjI)
    fix p q assume "p \<in> set ps" "q \<in> set ps" "year p = year q"
    then show "color_of ps p = color_of ps q" by (simp add: color_of_def)
  next
    fix p q assume p: "p \<in> set ps"
    from colorMap_bound [OF p] obtain i where
      i: "color_of ps p = Some (tailwindColorNames ! (i mod length tailwindColorNames))" by blast
    have "i mod length tailwindColorNames < length tailwindColorNames"
      by (simp add: length_tailwindColorNames)
    then have "tailwindColorNames ! (i mod length tailwindColorNames) \<in> set tailwindColorNames"
      by (rule nth_mem)
    then show "color_of ps p \<in> Some ` set tailwindColorNames" using i by simp
  qed
next
  show "\<forall>pre p post. ps = pre @ p # post \<and> year p \<notin> year ` set pre \<longrightarrow>
         color_of ps p
           = Some (tailwindColorNames ! (card (year ` set pre) mod length tailwindColorNames))"
    using colorMap_first_seen by (auto simp: color_of_def)
next
  show "card (year ` set ps) \<le> length tailwindColorNames \<longrightarrow>
         (\<forall>p\<in>set ps. \<forall>q\<in>set ps. year p \<noteq> year q \<longrightarrow> color_of ps p \<noteq> color_of ps q)"
    using colorMap_distinct by blast
qed

text \<open>
  C6, witness: the years 2021, 2021, 2022 get the first entry, the first entry and the
  second entry.
\<close>

theorem colorMap_assignment_witness:
  "color_of [person_Kyjov, person_digits, person_Brno] person_Kyjov
     = color_of [person_Kyjov, person_digits, person_Brno] person_digits
   \<and> color_of [person_Kyjov, person_digits, person_Brno] person_Kyjov = Some ''border-gray-500''
   \<and> color_of [person_Kyjov, person_digits, person_Brno] person_Brno = Some ''border-red-500''
   \<and> color_of [person_Kyjov, person_digits, person_Brno] person_Kyjov
       \<noteq> color_of [person_Kyjov, person_digits, person_Brno] person_Brno"
proof -
  let ?ps = "[person_Kyjov, person_digits, person_Brno]"
  note t = colorMap_assignment [of ?ps]
  note same_year = t [THEN conjunct2, THEN conjunct1, rule_format]
  note first_seen = t [THEN conjunct2, THEN conjunct2, THEN conjunct1, rule_format]
  note other_year = t [THEN conjunct2, THEN conjunct2, THEN conjunct2, rule_format]
  have y: "year person_Kyjov = Num 2021" "year person_digits = Num 2021" "year person_Brno = Num 2022"
    by (simp_all add: person_defs)
  have m: "person_Kyjov \<in> set ?ps" "person_digits \<in> set ?ps" "person_Brno \<in> set ?ps"
    by simp_all
  have same: "color_of ?ps person_Kyjov = color_of ?ps person_digits"
    using same_year [OF m(1) m(2)] y by simp
  have "?ps = [] @ person_Kyjov # [person_digits, person_Brno] \<and> year person_Kyjov \<notin> year ` set []"
    by simp
  from first_seen [OF this]
  have first: "color_of ?ps person_Kyjov = Some ''border-gray-500''"
    by (simp add: tailwindColorNames_def)
  have "?ps = [person_Kyjov, person_digits] @ person_Brno # []
          \<and> year person_Brno \<notin> year ` set [person_Kyjov, person_digits]"
    using y by simp
  from first_seen [OF this]
  have second: "color_of ?ps person_Brno = Some ''border-red-500''"
    using y by (simp add: tailwindColorNames_def)
  have c: "card (year ` set ?ps) \<le> length tailwindColorNames"
    using y by (simp add: tailwindColorNames_def card_insert_if)
  have differ: "color_of ?ps person_Kyjov \<noteq> color_of ?ps person_Brno"
    using other_year [OF c m(1) m(3)] y by simp
  from same first second differ show ?thesis by simp
qed

text \<open>
  C7. With the empty filter \<open>filteredPeople\<close> is the list itself. With any other filter
  value it is the sublist, in order, of the records whose year is \<open>===\<close> the number the
  value converts to: the records with an integer year equal to that number.
\<close>

theorem filteredPeople_identity_and_match:
  "filteredPeople Number ps [] = ps
   \<and> (y \<noteq> [] \<longrightarrow>
        filteredPeople Number ps y = filter (\<lambda>person. js_strict_eq (year person) (Number y)) ps
        \<and> (\<forall>p. p \<in> set (filteredPeople Number ps y)
                 \<longleftrightarrow> p \<in> set ps \<and> (\<exists>i. year p = Num i \<and> Number y = Num i)))"
proof -
  have eq: "\<And>a b. js_strict_eq a b \<longleftrightarrow> (\<exists>i. a = Num i \<and> b = Num i)"
  proof -
    fix a b show "js_strict_eq a b \<longleftrightarrow> (\<exists>i. a = Num i \<and> b = Num i)"
      by (cases a; cases b) auto
  qed
  show ?thesis by (simp add: filteredPeople_def eq)
qed

text \<open>
  C7, witness: the empty filter, the filter \<open>2021\<close>, and the filter \<open>NaN\<close>, which no
  record matches.
\<close>

theorem filteredPeople_identity_and_match_witness:
  "filteredPeople (\<lambda>s. if s = ''2021'' then Num 2021 else NaN) [person_Brno, person_no_date, person_Kyjov] []
     = [person_Brno, person_no_date, person_Kyjov]
   \<and> ''2021'' \<noteq> []
   \<and> filteredPeople (\<lambda>s. if s = ''2021'' then Num 2021 else NaN) [person_Brno, person_no_date, person_Kyjov] ''2021''
     = [person_Kyjov]
   \<and> filteredPeople (\<lambda>s. if s = ''2021'' then Num 2021 else NaN) [person_Brno, person_no_date, person_Kyjov] ''NaN''
     = []"
  using filteredPeople_identity_and_match
          [of "\<lambda>s. if s = ''2021'' then Num 2021 else NaN" "[person_Brno, person_no_date, person_Kyjov]" "''2021''"]
        filteredPeople_identity_and_match
          [of "\<lambda>s. if s = ''2021'' then Num 2021 else NaN" "[person_Brno, person_no_date, person_Kyjov]" "''NaN''"]
  by (simp add: person_Brno_def person_no_date_def person_Kyjov_def)

end
